theory Spec2Isabelle
  imports Complex_Main "HOL-Library.Multiset" "HOL-Library.Char_ord" "HOL-Library.List_Lexorder"
begin

section \<open>Bisimulation decomposition of sparse deterministic models\<close>

text \<open>
  A shallow embedding of \<^verbatim>\<open>src/storage/bisimulation/BisimulationDecomposition.cpp\<close>, read at
  its deterministic instantiation. The value type is \<open>rat\<close>: an exact type with equality, a
  total order and addition. Classes of the repository whose code is not part of the sources at
  hand (bit vectors, the model, the formula analysis, the propositional model checker, the
  partition and its blocks, the refinement of one splitter, the quotient builder) are modelled
  from the specification; each such definition says so.
\<close>

subsection \<open>Values, bit vectors and models\<close>

type_synonym ValueType = rat
type_synonym state_type = nat

text \<open>
  Modelled from the spec: the class \<^verbatim>\<open>BitVector\<close> is not in the sources. A state set is the
  vector of its truth values, one per state.
\<close>

type_synonym BitVector = "bool list"

definition bv_empty :: "BitVector \<Rightarrow> bool" where
  \<comment> \<open>Modelled from the spec: \<^verbatim>\<open>BitVector::empty()\<close>; the state set is empty, no bit is set.\<close>
  "bv_empty bv = (True \<notin> set bv)"

fun bv_begin :: "BitVector \<Rightarrow> state_type" where
  \<comment> \<open>Modelled from the spec: \<^verbatim>\<open>*bv.begin()\<close>; the first state of the set, the index of the
      first set bit.\<close>
  "bv_begin [] = 0"
| "bv_begin (b # bs) = (if b then 0 else Suc (bv_begin bs))"

definition bv_get :: "BitVector \<Rightarrow> state_type \<Rightarrow> bool" where
  \<comment> \<open>Modelled from the spec: membership of a state; a state beyond the vector is not in the
      set.\<close>
  "bv_get bv s = (s < length bv \<and> bv ! s)"

definition setBits :: "BitVector \<Rightarrow> state_type list" where
  \<comment> \<open>Modelled from the spec: the states of the set, in increasing order.\<close>
  "setBits bv = filter (bv_get bv) [0..<length bv]"

record RewardModel =
  stateRewardVector :: "ValueType list"
  hasTransitionRewards :: bool

definition hasOnlyStateRewards :: "RewardModel \<Rightarrow> bool" where
  \<comment> \<open>Modelled from the spec: \<^verbatim>\<open>StandardRewardModel::hasOnlyStateRewards\<close> is not in the
      sources; a reward model carries a state-reward vector and possibly transition rewards.\<close>
  "hasOnlyStateRewards r = (\<not> hasTransitionRewards r)"

text \<open>
  Modelled from the spec: the model classes are not in the sources. The model, as this component
  consumes it: the number of states, the sparse transition matrix (one row of column/value
  entries per state), the state labelling and the named reward models, each with its
  state-reward vector.
\<close>

record Model =
  numberOfStates :: nat
  transitionMatrix :: "(state_type \<times> ValueType) list list"
  stateLabeling :: "(string \<times> BitVector) list"
  rewardModels :: "(string \<times> RewardModel) list"

definition getLabels :: "Model \<Rightarrow> string set" where
  \<comment> \<open>Modelled from the spec: "all labels the model defines".\<close>
  "getLabels m = fst ` set (stateLabeling m)"

definition getStates :: "Model \<Rightarrow> string \<Rightarrow> BitVector" where
  \<comment> \<open>Modelled from the spec: the labelling maps a label to a state set; a label the model does
      not define labels no state.\<close>
  "getStates m l = (case map_of (stateLabeling m) l of
                      Some bv \<Rightarrow> bv
                    | None \<Rightarrow> replicate (numberOfStates m) False)"

definition hasRewardModel :: "Model \<Rightarrow> bool" where
  \<comment> \<open>Modelled from the spec: the model has at least one reward model.\<close>
  "hasRewardModel m = (rewardModels m \<noteq> [])"

definition hasUniqueRewardModel :: "Model \<Rightarrow> bool" where
  \<comment> \<open>Modelled from the spec: the model has exactly one reward model.\<close>
  "hasUniqueRewardModel m = (length (rewardModels m) = 1)"

definition row :: "Model \<Rightarrow> state_type \<Rightarrow> (state_type \<times> ValueType) list" where
  \<comment> \<open>Modelled from the spec: the transitions of a state; a state beyond the matrix has
      none.\<close>
  "row m s = (if s < length (transitionMatrix m) then transitionMatrix m ! s else [])"

definition getBackwardTransitions :: "Model \<Rightarrow> (state_type \<times> ValueType) list list" where
  \<comment> \<open>Modelled from the spec: the "backward transition matrix (reverse adjacency)"; row \<open>t\<close>
      lists the predecessors of \<open>t\<close>.\<close>
  "getBackwardTransitions m =
     map (\<lambda>t. concat (map (\<lambda>s. map (\<lambda>(c, v). (s, v)) (filter (\<lambda>(c, v). c = t) (row m s)))
                           [0..<numberOfStates m]))
         [0..<numberOfStates m]"

subsection \<open>Formulas\<close>

datatype ComparisonType = Less | LessEqual | Greater | GreaterEqual

datatype OptimizationDirection = Minimize | Maximize

datatype BinaryOperator = And | Or

text \<open>
  Modelled from the spec: of the formula classes only two operator classes are in the sources.
  The classes as a tagged union. An operator formula carries its optional optimality type and
  its optional bound, a bound being a comparison together with a threshold (see the constructors
  of \<^verbatim>\<open>RewardOperatorFormula\<close>). An atomic expression is kept as its string rendering, which
  is all this component reads of it.
\<close>

datatype Formula =
    ProbabilityOperatorFormula "OptimizationDirection option" "(ComparisonType \<times> rat) option" Formula
  | RewardOperatorFormula "string option" "OptimizationDirection option"
      "(ComparisonType \<times> rat) option" Formula
  | UntilFormula Formula Formula
  | BoundedUntilFormula Formula Formula nat
  | EventuallyFormula Formula
  | GloballyFormula Formula
  | NextFormula Formula
  | AtomicLabelFormula string
  | AtomicExpressionFormula string
  | BooleanLiteralFormula bool
  | UnaryBooleanStateFormula Formula
  | BinaryBooleanStateFormula BinaryOperator Formula Formula

fun containsRewardOperator :: "Formula \<Rightarrow> bool" where
  \<comment> \<open>Modelled from the spec: \<^verbatim>\<open>FormulaInformation\<close> is not in the sources; "contains reward
      operator".\<close>
  "containsRewardOperator (ProbabilityOperatorFormula ot b f) = containsRewardOperator f"
| "containsRewardOperator (RewardOperatorFormula n ot b f) = True"
| "containsRewardOperator (UntilFormula l r) = (containsRewardOperator l \<or> containsRewardOperator r)"
| "containsRewardOperator (BoundedUntilFormula l r k) =
     (containsRewardOperator l \<or> containsRewardOperator r)"
| "containsRewardOperator (EventuallyFormula f) = containsRewardOperator f"
| "containsRewardOperator (GloballyFormula f) = containsRewardOperator f"
| "containsRewardOperator (NextFormula f) = containsRewardOperator f"
| "containsRewardOperator (AtomicLabelFormula l) = False"
| "containsRewardOperator (AtomicExpressionFormula e) = False"
| "containsRewardOperator (BooleanLiteralFormula b) = False"
| "containsRewardOperator (UnaryBooleanStateFormula f) = containsRewardOperator f"
| "containsRewardOperator (BinaryBooleanStateFormula bop l r) =
     (containsRewardOperator l \<or> containsRewardOperator r)"

fun containsBoundedUntilFormula :: "Formula \<Rightarrow> bool" where
  \<comment> \<open>Modelled from the spec: \<^verbatim>\<open>FormulaInformation\<close> is not in the sources; "contains
      bounded-until".\<close>
  "containsBoundedUntilFormula (ProbabilityOperatorFormula ot b f) = containsBoundedUntilFormula f"
| "containsBoundedUntilFormula (RewardOperatorFormula n ot b f) = containsBoundedUntilFormula f"
| "containsBoundedUntilFormula (UntilFormula l r) =
     (containsBoundedUntilFormula l \<or> containsBoundedUntilFormula r)"
| "containsBoundedUntilFormula (BoundedUntilFormula l r k) = True"
| "containsBoundedUntilFormula (EventuallyFormula f) = containsBoundedUntilFormula f"
| "containsBoundedUntilFormula (GloballyFormula f) = containsBoundedUntilFormula f"
| "containsBoundedUntilFormula (NextFormula f) = containsBoundedUntilFormula f"
| "containsBoundedUntilFormula (AtomicLabelFormula l) = False"
| "containsBoundedUntilFormula (AtomicExpressionFormula e) = False"
| "containsBoundedUntilFormula (BooleanLiteralFormula b) = False"
| "containsBoundedUntilFormula (UnaryBooleanStateFormula f) = containsBoundedUntilFormula f"
| "containsBoundedUntilFormula (BinaryBooleanStateFormula bop l r) =
     (containsBoundedUntilFormula l \<or> containsBoundedUntilFormula r)"

fun containsNextFormula :: "Formula \<Rightarrow> bool" where
  \<comment> \<open>Modelled from the spec: \<^verbatim>\<open>FormulaInformation\<close> is not in the sources; "contains next".\<close>
  "containsNextFormula (ProbabilityOperatorFormula ot b f) = containsNextFormula f"
| "containsNextFormula (RewardOperatorFormula n ot b f) = containsNextFormula f"
| "containsNextFormula (UntilFormula l r) = (containsNextFormula l \<or> containsNextFormula r)"
| "containsNextFormula (BoundedUntilFormula l r k) =
     (containsNextFormula l \<or> containsNextFormula r)"
| "containsNextFormula (EventuallyFormula f) = containsNextFormula f"
| "containsNextFormula (GloballyFormula f) = containsNextFormula f"
| "containsNextFormula (NextFormula f) = True"
| "containsNextFormula (AtomicLabelFormula l) = False"
| "containsNextFormula (AtomicExpressionFormula e) = False"
| "containsNextFormula (BooleanLiteralFormula b) = False"
| "containsNextFormula (UnaryBooleanStateFormula f) = containsNextFormula f"
| "containsNextFormula (BinaryBooleanStateFormula bop l r) =
     (containsNextFormula l \<or> containsNextFormula r)"

fun isPropositional :: "Formula \<Rightarrow> bool" where
  \<comment> \<open>Modelled from the spec: \<^verbatim>\<open>isInFragment(propositional())\<close> is not in the sources; "is in
      the purely-propositional fragment": labels, expressions, literals and their boolean
      combinations.\<close>
  "isPropositional (AtomicLabelFormula l) = True"
| "isPropositional (AtomicExpressionFormula e) = True"
| "isPropositional (BooleanLiteralFormula b) = True"
| "isPropositional (UnaryBooleanStateFormula f) = isPropositional f"
| "isPropositional (BinaryBooleanStateFormula bop l r) = (isPropositional l \<and> isPropositional r)"
| "isPropositional f = False"

fun getAtomicLabelFormulas :: "Formula \<Rightarrow> string list" where
  \<comment> \<open>Modelled from the spec: "atomic labels referenced"; each label formula is given by its
      label.\<close>
  "getAtomicLabelFormulas (ProbabilityOperatorFormula ot b f) = getAtomicLabelFormulas f"
| "getAtomicLabelFormulas (RewardOperatorFormula n ot b f) = getAtomicLabelFormulas f"
| "getAtomicLabelFormulas (UntilFormula l r) = getAtomicLabelFormulas l @ getAtomicLabelFormulas r"
| "getAtomicLabelFormulas (BoundedUntilFormula l r k) =
     getAtomicLabelFormulas l @ getAtomicLabelFormulas r"
| "getAtomicLabelFormulas (EventuallyFormula f) = getAtomicLabelFormulas f"
| "getAtomicLabelFormulas (GloballyFormula f) = getAtomicLabelFormulas f"
| "getAtomicLabelFormulas (NextFormula f) = getAtomicLabelFormulas f"
| "getAtomicLabelFormulas (AtomicLabelFormula l) = [l]"
| "getAtomicLabelFormulas (AtomicExpressionFormula e) = []"
| "getAtomicLabelFormulas (BooleanLiteralFormula b) = []"
| "getAtomicLabelFormulas (UnaryBooleanStateFormula f) = getAtomicLabelFormulas f"
| "getAtomicLabelFormulas (BinaryBooleanStateFormula bop l r) =
     getAtomicLabelFormulas l @ getAtomicLabelFormulas r"

fun getAtomicExpressionFormulas :: "Formula \<Rightarrow> string list" where
  \<comment> \<open>Modelled from the spec: "atomic expressions referenced"; each expression formula is given
      by its \<^verbatim>\<open>toString()\<close>.\<close>
  "getAtomicExpressionFormulas (ProbabilityOperatorFormula ot b f) = getAtomicExpressionFormulas f"
| "getAtomicExpressionFormulas (RewardOperatorFormula n ot b f) = getAtomicExpressionFormulas f"
| "getAtomicExpressionFormulas (UntilFormula l r) =
     getAtomicExpressionFormulas l @ getAtomicExpressionFormulas r"
| "getAtomicExpressionFormulas (BoundedUntilFormula l r k) =
     getAtomicExpressionFormulas l @ getAtomicExpressionFormulas r"
| "getAtomicExpressionFormulas (EventuallyFormula f) = getAtomicExpressionFormulas f"
| "getAtomicExpressionFormulas (GloballyFormula f) = getAtomicExpressionFormulas f"
| "getAtomicExpressionFormulas (NextFormula f) = getAtomicExpressionFormulas f"
| "getAtomicExpressionFormulas (AtomicLabelFormula l) = []"
| "getAtomicExpressionFormulas (AtomicExpressionFormula e) = [e]"
| "getAtomicExpressionFormulas (BooleanLiteralFormula b) = []"
| "getAtomicExpressionFormulas (UnaryBooleanStateFormula f) = getAtomicExpressionFormulas f"
| "getAtomicExpressionFormulas (BinaryBooleanStateFormula bop l r) =
     getAtomicExpressionFormulas l @ getAtomicExpressionFormulas r"

subsection \<open>The propositional model checker\<close>

fun sat :: "Model \<Rightarrow> Formula \<Rightarrow> state_type \<Rightarrow> bool" where
  \<comment> \<open>Modelled from the spec: whether a purely propositional formula holds in a state; an
      expression is looked up under its string, as a label is.\<close>
  "sat m (AtomicLabelFormula l) s = bv_get (getStates m l) s"
| "sat m (AtomicExpressionFormula e) s = bv_get (getStates m e) s"
| "sat m (BooleanLiteralFormula b) s = b"
| "sat m (UnaryBooleanStateFormula f) s = (\<not> sat m f s)"
| "sat m (BinaryBooleanStateFormula And l r) s = (sat m l s \<and> sat m r s)"
| "sat m (BinaryBooleanStateFormula Or l r) s = (sat m l s \<or> sat m r s)"
| "sat m f s = False"

definition check :: "Model \<Rightarrow> Formula \<Rightarrow> BitVector option" where
  \<comment> \<open>Modelled from the spec: \<^verbatim>\<open>SparsePropositionalModelChecker::check\<close> followed by
      \<^verbatim>\<open>getTruthValuesVector\<close>: "given a model and a purely propositional formula, return the
      exact set of states where it holds". \<open>None\<close>: the formula is not propositional and the
      checker does not return.\<close>
  "check m f = (if isPropositional f then Some (map (sat m f) [0..<numberOfStates m]) else None)"

subsection \<open>Options\<close>

datatype BisimulationType = Strong | Weak

record Options =
  measureDrivenInitialPartition :: bool
  phiStates :: "BitVector option"
  psiStates :: "BitVector option"
  optimalityType :: "OptimizationDirection option"
  respectedAtomicPropositions :: "string set option"
  buildQuotient :: bool
  keepRewards :: bool
  otype :: BisimulationType
  bounded :: bool

definition Options_default :: Options where
  \<comment> \<open>\<^verbatim>\<open>Options::Options()\<close>; the optional members start absent.\<close>
  "Options_default = \<lparr> measureDrivenInitialPartition = False, phiStates = None, psiStates = None,
     optimalityType = None, respectedAtomicPropositions = None, buildQuotient = True,
     keepRewards = False, otype = Strong, bounded = False \<rparr>"

definition addToRespectedAtomicPropositions :: "string list \<Rightarrow> string list \<Rightarrow> Options \<Rightarrow> Options" where
  "addToRespectedAtomicPropositions expressions labels opts =
     (let labelsToRespect = set labels \<union> set expressions
      in case respectedAtomicPropositions opts of
           None \<Rightarrow> opts\<lparr>respectedAtomicPropositions := Some labelsToRespect\<rparr>
         | Some aps \<Rightarrow> opts\<lparr>respectedAtomicPropositions := Some (aps \<union> labelsToRespect)\<rparr>)"

definition preserveFormula :: "Model \<Rightarrow> Formula \<Rightarrow> Options \<Rightarrow> Options" where
  "preserveFormula m formula opts =
     (let opts1 = opts\<lparr>measureDrivenInitialPartition := False, phiStates := None, psiStates := None\<rparr>;
          opts2 = opts1\<lparr>keepRewards := (keepRewards opts1 \<or> containsRewardOperator formula)\<rparr>;
          opts3 = opts2\<lparr>bounded := (bounded opts2 \<or>
                     (containsBoundedUntilFormula formula \<or> containsNextFormula formula))\<rparr>
      in addToRespectedAtomicPropositions (getAtomicExpressionFormulas formula)
           (getAtomicLabelFormulas formula) opts3)"

definition inferOptimalityType ::
  "OptimizationDirection option \<Rightarrow> (ComparisonType \<times> rat) option \<Rightarrow> Options \<Rightarrow> Options" where
  \<comment> \<open>Lines 96-105 and 108-117: the same statements for both operator kinds.\<close>
  "inferOptimalityType ot bnd opts =
     (case ot of
        Some d \<Rightarrow> opts\<lparr>optimalityType := Some d\<rparr>
      | None \<Rightarrow>
          (case bnd of
             Some (comparisonType, threshold) \<Rightarrow>
               (if comparisonType = Less \<or> comparisonType = LessEqual
                then opts\<lparr>optimalityType := Some Maximize\<rparr>
                else opts\<lparr>optimalityType := Some Minimize\<rparr>)
           | None \<Rightarrow> opts))"

definition unwrapOperator :: "Formula \<Rightarrow> Options \<Rightarrow> Options \<times> Formula" where
  \<comment> \<open>Lines 93-119: the options after the operator has been read, and \<^verbatim>\<open>newFormula\<close>.\<close>
  "unwrapOperator formula opts =
     (case formula of
        ProbabilityOperatorFormula ot bnd sub \<Rightarrow> (inferOptimalityType ot bnd opts, sub)
      | RewardOperatorFormula nm ot bnd sub \<Rightarrow> (inferOptimalityType ot bnd opts, sub)
      | _ \<Rightarrow> (opts, formula))"

definition reachabilitySides :: "Formula \<Rightarrow> Options \<Rightarrow> Options \<times> Formula \<times> Formula option" where
  \<comment> \<open>Lines 121-134: the options, \<^verbatim>\<open>leftSubformula\<close> and \<^verbatim>\<open>rightSubformula\<close>, the latter
      a null pointer (\<open>None\<close>) unless the formula is an until or an eventually formula.\<close>
  "reachabilitySides newFormula opts =
     (case newFormula of
        UntilFormula l r \<Rightarrow>
          (if isPropositional l \<and> isPropositional r
           then opts\<lparr>measureDrivenInitialPartition := True\<rparr> else opts, l, Some r)
      | EventuallyFormula r \<Rightarrow>
          (if isPropositional r
           then opts\<lparr>measureDrivenInitialPartition := True\<rparr> else opts,
           BooleanLiteralFormula True, Some r)
      | _ \<Rightarrow> (opts, BooleanLiteralFormula True, None))"

definition checkAndSetMeasureDrivenInitialPartition :: "Model \<Rightarrow> Formula \<Rightarrow> Options \<Rightarrow> Options option" where
  \<comment> \<open>\<open>None\<close>: the call does not return, because it dereferences the null
      \<^verbatim>\<open>rightSubformula\<close> or hands the checker a formula that is not propositional. Both need
      \<^verbatim>\<open>measureDrivenInitialPartition\<close> to be set on entry, which no constructor does.\<close>
  "checkAndSetMeasureDrivenInitialPartition m formula opts =
     (case unwrapOperator formula opts of (opts1, newFormula) \<Rightarrow>
        (case reachabilitySides newFormula opts1 of (opts2, leftSubformula, rightSubformula) \<Rightarrow>
           (if measureDrivenInitialPartition opts2 then
              (case rightSubformula of
                 None \<Rightarrow> None
               | Some r \<Rightarrow>
                   (case check m leftSubformula of
                      None \<Rightarrow> None
                    | Some phi \<Rightarrow>
                        (case check m r of
                           None \<Rightarrow> None
                         | Some psi \<Rightarrow> Some (opts2\<lparr>phiStates := Some phi, psiStates := Some psi\<rparr>))))
            else Some (opts2\<lparr>optimalityType := None\<rparr>))))"

definition preserveSingleFormula :: "Model \<Rightarrow> Formula \<Rightarrow> Options \<Rightarrow> Options option" where
  "preserveSingleFormula m formula opts =
     (let opts1 = opts\<lparr>keepRewards := containsRewardOperator formula\<rparr>;
          opts2 = opts1\<lparr>bounded := (containsBoundedUntilFormula formula \<or> containsNextFormula formula)\<rparr>;
          opts3 = addToRespectedAtomicPropositions (getAtomicExpressionFormulas formula)
                    (getAtomicLabelFormulas formula) opts2
      in checkAndSetMeasureDrivenInitialPartition m formula opts3)"

definition Options_formula :: "Model \<Rightarrow> Formula \<Rightarrow> Options option" where
  \<comment> \<open>\<^verbatim>\<open>Options::Options(ModelType const&, Formula const&)\<close>\<close>
  "Options_formula m formula = preserveSingleFormula m formula Options_default"

definition Options_formulas :: "Model \<Rightarrow> Formula list \<Rightarrow> Options option" where
  \<comment> \<open>\<^verbatim>\<open>Options::Options(ModelType const&, std::vector<...> const&)\<close>. The second \<^verbatim>\<open>if\<close> is
      not an \<^verbatim>\<open>else if\<close>: an empty list also runs the loop, over nothing.\<close>
  "Options_formulas m formulas =
     (let opts1 = (if formulas = []
                   then Options_default\<lparr>respectedAtomicPropositions := Some (getLabels m),
                                        keepRewards := True\<rparr>
                   else Options_default)
      in if length formulas = 1 then preserveSingleFormula m (hd formulas) opts1
         else Some (foldl (\<lambda>opts formula. preserveFormula m formula opts) opts1 formulas))"


text \<open>
  The words of the specification about a single formula, as definitions of their own: the
  formula below a leading operator, "an Until or Eventually formula whose sides are purely
  propositional", the two sides of such a formula, and the direction an operator gives or its
  bound implies.
\<close>

definition unwrapped :: "Formula \<Rightarrow> Formula" where
  "unwrapped formula =
     (case formula of
        ProbabilityOperatorFormula ot bnd sub \<Rightarrow> sub
      | RewardOperatorFormula nm ot bnd sub \<Rightarrow> sub
      | _ \<Rightarrow> formula)"

definition operatorParts ::
  "Formula \<Rightarrow> (OptimizationDirection option \<times> (ComparisonType \<times> rat) option) option" where
  "operatorParts formula =
     (case formula of
        ProbabilityOperatorFormula ot bnd sub \<Rightarrow> Some (ot, bnd)
      | RewardOperatorFormula nm ot bnd sub \<Rightarrow> Some (ot, bnd)
      | _ \<Rightarrow> None)"

definition untilOrEventuallyWithPropositionalSides :: "Formula \<Rightarrow> bool" where
  "untilOrEventuallyWithPropositionalSides f =
     (case f of
        UntilFormula l r \<Rightarrow> isPropositional l \<and> isPropositional r
      | EventuallyFormula r \<Rightarrow> isPropositional r
      | _ \<Rightarrow> False)"

definition leftSide :: "Formula \<Rightarrow> Formula" where
  "leftSide f = (case f of UntilFormula l r \<Rightarrow> l | _ \<Rightarrow> BooleanLiteralFormula True)"

definition rightSide :: "Formula \<Rightarrow> Formula" where
  "rightSide f = (case f of UntilFormula l r \<Rightarrow> r | EventuallyFormula r \<Rightarrow> r | _ \<Rightarrow> f)"

definition inferredDirection ::
  "OptimizationDirection option \<Rightarrow> (ComparisonType \<times> rat) option \<Rightarrow> OptimizationDirection option" where
  "inferredDirection ot bnd =
     (case ot of
        Some d \<Rightarrow> Some d
      | None \<Rightarrow> (case bnd of
                   Some (comparisonType, threshold) \<Rightarrow>
                     Some (if comparisonType = Less \<or> comparisonType = LessEqual
                           then Maximize else Minimize)
                 | None \<Rightarrow> None))"

definition singleFormulaStart :: "Formula \<Rightarrow> Options \<Rightarrow> Options" where
  \<comment> \<open>The options of \<^verbatim>\<open>preserveSingleFormula\<close> before its last call, lines 77-85.\<close>
  "singleFormulaStart formula opts =
     addToRespectedAtomicPropositions (getAtomicExpressionFormulas formula)
       (getAtomicLabelFormulas formula)
       (opts\<lparr>keepRewards := containsRewardOperator formula,
              bounded := (containsBoundedUntilFormula formula \<or> containsNextFormula formula)\<rparr>)"

subsection \<open>States with probability 0 and 1\<close>

definition successors :: "Model \<Rightarrow> state_type \<Rightarrow> state_type list" where
  \<comment> \<open>Modelled from the spec: the states a state moves to with positive probability.\<close>
  "successors m s = map fst (filter (\<lambda>(c, v). v \<noteq> 0) (row m s))"

definition probGreater0Step :: "Model \<Rightarrow> BitVector \<Rightarrow> BitVector \<Rightarrow> BitVector" where
  \<comment> \<open>Modelled from the spec: one round of backward reachability; a phi state is added when
      one of its successors has been reached.\<close>
  "probGreater0Step m phi reached =
     map (\<lambda>s. bv_get reached s \<or> (bv_get phi s \<and> list_ex (bv_get reached) (successors m s)))
         [0..<numberOfStates m]"

definition performProbGreater0 :: "Model \<Rightarrow> BitVector \<Rightarrow> BitVector \<Rightarrow> BitVector" where
  \<comment> \<open>Modelled from the spec: the graph analysis is not in the sources. The states from which
      a psi state is reached with positive probability along phi states: backward reachability,
      which is complete after as many rounds as there are states.\<close>
  "performProbGreater0 m phi psi =
     ((probGreater0Step m phi) ^^ numberOfStates m) (map (bv_get psi) [0..<numberOfStates m])"

definition performProb01 :: "Model \<Rightarrow> BitVector \<Rightarrow> BitVector \<Rightarrow> BitVector \<times> BitVector" where
  \<comment> \<open>Modelled from the spec: "the model's states with probability exactly 0 and exactly 1 of
      satisfying" phi until psi, for a deterministic model. Probability 0: no psi state is
      reachable along phi states. Probability 1: no probability-0 state is reachable before
      psi.\<close>
  "performProb01 m phi psi =
     (let greater0 = performProbGreater0 m phi psi
      in (map Not greater0, map Not (performProbGreater0 m (map Not psi) (map Not greater0))))"

subsection \<open>Partitions and blocks\<close>

text \<open>
  Modelled from the spec: the classes \<^verbatim>\<open>Partition\<close> and \<^verbatim>\<open>Block\<close> are not in the sources.
  A partition is an ordered sequence of blocks; a block owns its states and carries the splitter
  flag, the absorbing marker and the representative marker. Blocks are addressed by stable
  integer handles, which stand for the block pointers of the source; a split retires the handle
  of the block it replaces and gives each new block a fresh one.
\<close>

record Block =
  handle :: nat
  states :: "state_type list"
  splitter :: bool
  absorbing :: bool
  representativeState :: "state_type option"

record Partition =
  getBlocks :: "Block list"
  nextHandle :: nat

definition inheritedRepresentative :: "state_type option \<Rightarrow> state_type list \<Rightarrow> state_type option" where
  \<comment> \<open>Modelled from the spec: a new block keeps the representative of the block it comes from
      if it holds that state.\<close>
  "inheritedRepresentative r g = (case r of Some s \<Rightarrow> if s \<in> set g then Some s else None | None \<Rightarrow> None)"

definition newBlocks ::
  "state_type option \<Rightarrow> bool \<Rightarrow> bool \<Rightarrow> nat \<Rightarrow> state_type list list \<Rightarrow> Block list" where
  \<comment> \<open>Modelled from the spec: one new block per group of states, with consecutive fresh
      handles from \<open>h\<close> on, the given splitter flag, and the absorbing marker \<open>a\<close> and the
      representative \<open>r\<close> of the block the groups come from.\<close>
  "newBlocks r a flag h groups =
     map (\<lambda>(i, g). \<lparr> handle = i, states = g, splitter = flag, absorbing = a,
                     representativeState = inheritedRepresentative r g \<rparr>)
         (enumerate h groups)"

definition nonEmpty :: "'a list list \<Rightarrow> 'a list list" where
  \<comment> \<open>Modelled from the spec: a block is never empty, so empty groups make no block.\<close>
  "nonEmpty groups = filter (\<lambda>g. g \<noteq> []) groups"

definition Partition_trivial :: "nat \<Rightarrow> Partition" where
  \<comment> \<open>Modelled from the spec: \<^verbatim>\<open>Partition(numberOfStates)\<close>; "a trivial partition (all states
      in one block)".\<close>
  "Partition_trivial n =
     (let groups = nonEmpty [[0..<n]]
      in \<lparr> getBlocks = newBlocks None False False 0 groups, nextHandle = length groups \<rparr>)"

definition Partition_measureDriven ::
  "nat \<Rightarrow> BitVector \<Rightarrow> BitVector \<Rightarrow> state_type option \<Rightarrow> Partition" where
  \<comment> \<open>Modelled from the spec:
      \<^verbatim>\<open>Partition(numberOfStates, prob0States, prob1States, representativeProb1State)\<close>; "a
      three-way partition" into the first set, the second set and the remainder, empty parts
      left out, "using one designated representative": the block of the second set carries
      it. The blocks of the first and of the second set are the ones marked absorbing: what
      their states do next has no bearing on the measure, so the refinement leaves them as
      they are.\<close>
  "Partition_measureDriven n prob0States prob1States representativeProb1State =
     (let first = filter (bv_get prob0States) [0..<n];
          second = filter (bv_get prob1States) [0..<n];
          others = filter (\<lambda>s. \<not> bv_get prob0States s \<and> \<not> bv_get prob1States s) [0..<n];
          parts = filter (\<lambda>(g, r, a). g \<noteq> [])
                    [(first, None, True), (second, representativeProb1State, True),
                     (others, None, False)]
      in \<lparr> getBlocks = map (\<lambda>(i, (g, r, a)). \<lparr> handle = i, states = g, splitter = False,
                                                absorbing = a, representativeState = r \<rparr>)
                           (enumerate 0 parts),
           nextHandle = length parts \<rparr>)"

fun splitBlocks ::
  "bool \<Rightarrow> (Block \<Rightarrow> state_type list list) \<Rightarrow> Block list \<Rightarrow> nat \<Rightarrow> Block list \<times> nat" where
  \<comment> \<open>Modelled from the spec: "a split always replaces one block with two or more new
      blocks". The blocks are visited in order; the result is the new sequence of blocks and the
      next fresh handle.\<close>
  "splitBlocks flag f [] h = ([], h)"
| "splitBlocks flag f (b # bs) h =
     (let groups = f b
      in if 1 < length groups
         then (case splitBlocks flag f bs (h + length groups) of
                 (bs', h') \<Rightarrow>
                   (newBlocks (representativeState b) (absorbing b) flag h groups @ bs', h'))
         else (case splitBlocks flag f bs h of (bs', h') \<Rightarrow> (b # bs', h')))"

definition splitPartition :: "bool \<Rightarrow> (Block \<Rightarrow> state_type list list) \<Rightarrow> Partition \<Rightarrow> Partition" where
  \<comment> \<open>Modelled from the spec: every block that \<open>f\<close> divides into more than one group is
      replaced by one new block per group; the other blocks stay as they are.\<close>
  "splitPartition flag f P =
     (case splitBlocks flag f (getBlocks P) (nextHandle P) of
        (bs, h) \<Rightarrow> \<lparr> getBlocks = bs, nextHandle = h \<rparr>)"

definition splitStates :: "BitVector \<Rightarrow> Partition \<Rightarrow> Partition" where
  \<comment> \<open>Modelled from the spec: \<^verbatim>\<open>Partition::splitStates\<close>; the "per-label split" of every
      block into its states inside and outside the given set.\<close>
  "splitStates bv P =
     splitPartition False
       (\<lambda>b. nonEmpty [filter (bv_get bv) (states b), filter (\<lambda>s. \<not> bv_get bv s) (states b)]) P"

fun insertBy :: "('a \<Rightarrow> 'a \<Rightarrow> bool) \<Rightarrow> 'a \<Rightarrow> 'a list \<Rightarrow> 'a list" where
  \<comment> \<open>Modelled from the spec: insertion into a list sorted by the strict order \<open>lt\<close>.\<close>
  "insertBy lt x [] = [x]"
| "insertBy lt x (y # ys) = (if lt x y then x # y # ys else y # insertBy lt x ys)"

definition sortBy :: "('a \<Rightarrow> 'a \<Rightarrow> bool) \<Rightarrow> 'a list \<Rightarrow> 'a list" where
  \<comment> \<open>Modelled from the spec: sorting by the strict order \<open>lt\<close>.\<close>
  "sortBy lt xs = foldr (insertBy lt) xs []"

fun ranges :: "('a \<Rightarrow> 'a \<Rightarrow> bool) \<Rightarrow> 'a list \<Rightarrow> 'a list list" where
  \<comment> \<open>Modelled from the spec: the list cut wherever two neighbours are strictly ordered.\<close>
  "ranges lt [] = []"
| "ranges lt [x] = [[x]]"
| "ranges lt (x # y # ys) =
     (if lt x y then [x] # ranges lt (y # ys)
      else (case ranges lt (y # ys) of
              [] \<Rightarrow> [[x]]
            | r # rs \<Rightarrow> (x # r) # rs))"

definition split_less :: "(state_type \<Rightarrow> state_type \<Rightarrow> bool) \<Rightarrow> Partition \<Rightarrow> Partition" where
  \<comment> \<open>Modelled from the spec: \<^verbatim>\<open>Partition::split(less)\<close>; "split every block by (strictly
      ordered) state-reward value": every block is sorted by the strict order and cut wherever
      two neighbours are strictly ordered.\<close>
  "split_less lt P = splitPartition False (\<lambda>b. ranges lt (sortBy lt (states b))) P"

definition getBlock :: "Partition \<Rightarrow> nat \<Rightarrow> Block option" where
  \<comment> \<open>Modelled from the spec: the block a handle stands for; \<open>None\<close> for a retired handle.\<close>
  "getBlock P h = find (\<lambda>b. handle b = h) (getBlocks P)"

definition getNumberOfStates :: "Partition \<Rightarrow> nat \<Rightarrow> nat" where
  \<comment> \<open>Modelled from the spec: \<^verbatim>\<open>Block::getNumberOfStates\<close>, through the handle.\<close>
  "getNumberOfStates P h = (case getBlock P h of Some b \<Rightarrow> length (states b) | None \<Rightarrow> 0)"

definition setSplitter :: "nat \<Rightarrow> bool \<Rightarrow> Partition \<Rightarrow> Partition" where
  \<comment> \<open>Modelled from the spec: \<^verbatim>\<open>block->data().setSplitter(v)\<close>, through the handle.\<close>
  "setSplitter h v P =
     P\<lparr>getBlocks := map (\<lambda>b. if handle b = h then b\<lparr>splitter := v\<rparr> else b) (getBlocks P)\<rparr>"

subsection \<open>Refinement against one splitter\<close>

type_synonym BackwardTransitions = "(state_type \<times> ValueType) list list"

definition probabilityToBlock :: "Model \<Rightarrow> state_type list \<Rightarrow> state_type \<Rightarrow> ValueType" where
  \<comment> \<open>Modelled from the spec: the aggregated transition probability from state \<open>s\<close> into the
      block of states \<open>C\<close>, read off the row of \<open>s\<close> in the transition matrix of the model.\<close>
  "probabilityToBlock m C s = sum_list (map snd (filter (\<lambda>(c, v). c \<in> set C) (row m s)))"

definition predecessorEntries ::
  "BackwardTransitions \<Rightarrow> state_type list \<Rightarrow> (state_type \<times> ValueType) list" where
  \<comment> \<open>Modelled from the spec: the refinement runs "over a sparse backward-transition
      representation". These are the entries of the backward rows of the states of \<open>S\<close>, one
      per transition into \<open>S\<close>: the predecessor and the probability. A state without a row
      has no predecessor.\<close>
  "predecessorEntries bt S = concat (map (\<lambda>t. if t < length bt then bt ! t else []) S)"

definition probabilityToSplitter ::
  "BackwardTransitions \<Rightarrow> state_type list \<Rightarrow> state_type \<Rightarrow> ValueType" where
  \<comment> \<open>Modelled from the spec: "the aggregated transition-probability that s places on the
      chosen splitter block", summed up over the backward transitions of the splitter.\<close>
  "probabilityToSplitter bt S s =
     sum_list (map snd (filter (\<lambda>(p, v). p = s) (predecessorEntries bt S)))"

definition signature ::
  "BisimulationType \<Rightarrow> BackwardTransitions \<Rightarrow> state_type list \<Rightarrow> state_type list \<Rightarrow>
   state_type \<Rightarrow> ValueType" where
  \<comment> \<open>Modelled from the spec: the signature of state \<open>s\<close> of block \<open>B\<close> against the splitter
      \<open>S\<close>. Strong: "the aggregated transition-probability that s places on the chosen splitter
      block". Weak: that "probability with silent transitions collapsed"; the silent transitions
      of a state are those that stay in its own block, so moving into the own block counts for
      nothing, and moving elsewhere is taken relative to the probability of leaving the block
      (nothing, for a state that never leaves it).\<close>
  "signature t bt S B s =
     (case t of
        Strong \<Rightarrow> probabilityToSplitter bt S s
      | Weak \<Rightarrow>
          (let silent = probabilityToSplitter bt B s
           in if set S = set B \<or> silent = 1 then 0
              else probabilityToSplitter bt S s / (1 - silent)))"

fun groupBySignature :: "(state_type \<Rightarrow> ValueType) \<Rightarrow> state_type list \<Rightarrow> state_type list list" where
  \<comment> \<open>Modelled from the spec: the states "grouped by identical signature", by exact equality
      of the values.\<close>
  "groupBySignature sig [] = []"
| "groupBySignature sig (s # ss) =
     (s # filter (\<lambda>t. sig t = sig s) ss) # groupBySignature sig (filter (\<lambda>t. sig t \<noteq> sig s) ss)"

definition subBlocks ::
  "BisimulationType \<Rightarrow> BackwardTransitions \<Rightarrow> state_type list \<Rightarrow> Block \<Rightarrow> state_type list list" where
  \<comment> \<open>Modelled from the spec: the sub-blocks of block \<open>b\<close> against the splitter \<open>S\<close>. A block
      marked absorbing is not divided: the absorbing marker is block data "used by
      refinement", and the transitions out of an absorbing block do not count.\<close>
  "subBlocks t bt S b =
     (if absorbing b then [states b]
      else groupBySignature (signature t bt S (states b)) (states b))"

definition refinePartitionBasedOnSplitter ::
  "BisimulationType \<Rightarrow> BackwardTransitions \<Rightarrow> nat \<Rightarrow> nat list \<Rightarrow> Partition \<Rightarrow>
   Partition \<times> nat list" where
  \<comment> \<open>Modelled from the spec: the refinement of one splitter is implemented by the subclasses,
      which are not in the sources. "For every block B currently in the partition, compute for
      each state s of B a signature. Partition B into sub-blocks grouped by identical signature.
      If B splits into more than one sub-block, every resulting sub-block is (re-)marked as a
      splitter and enqueued, and B's old identity is retired." The signatures are read off the
      backward transitions \<open>bt\<close> of the decomposition. The result is the new partition and the
      new splitter vector: the handles still in use, then the handles given out by this call.\<close>
  "refinePartitionBasedOnSplitter t bt h splitterVector P =
     (let S = (case getBlock P h of Some b \<Rightarrow> states b | None \<Rightarrow> []);
          P' = splitPartition True (subBlocks t bt S) P
      in (P', filter (\<lambda>h'. h' \<in> handle ` set (getBlocks P')) splitterVector @
              [nextHandle P..<nextHandle P']))"

subsection \<open>The refinement loop\<close>

definition nextSplitter :: "Partition \<Rightarrow> nat list \<Rightarrow> nat \<times> nat list" where
  \<comment> \<open>Lines 245-247: the vector is sorted by decreasing number of states, and its last element
      is taken off. The result is the splitter and the vector that remains. \<^verbatim>\<open>std::sort\<close>
      leaves the order of blocks of one size open; this is one such order.\<close>
  "nextSplitter P splitterVector =
     (let sorted = rev (sort_key (getNumberOfStates P) splitterVector)
      in (last sorted, butlast sorted))"

definition refinementIteration ::
  "BisimulationType \<Rightarrow> BackwardTransitions \<Rightarrow> Partition \<times> nat list \<Rightarrow> Partition \<times> nat list" where
  \<comment> \<open>The body of the loop, lines 245-251, on the partition and the splitter vector. The
      counter \<^verbatim>\<open>iterations\<close> is never read and is left out.\<close>
  "refinementIteration t bt st =
     (case st of (P, splitterVector) \<Rightarrow>
        (case nextSplitter P splitterVector of (h, splitterVector') \<Rightarrow>
           refinePartitionBasedOnSplitter t bt h splitterVector' (setSplitter h False P)))"

text \<open>
  The loop terminates: a split lowers the number of states that are not alone in their block
  counted once per block, and an iteration without a split shortens the splitter vector.
\<close>

definition potential :: "Block list \<Rightarrow> nat" where
  "potential bs = sum_list (map (\<lambda>b. length (states b) - 1) bs)"

lemma groupBySignature_lengths:
  "sum_list (map length (groupBySignature sig ss)) = length ss"
proof (induction sig ss rule: groupBySignature.induct)
  case (1 sig)
  then show ?case by simp
next
  case (2 sig s ss)
  have "length (filter (\<lambda>t. sig t = sig s) ss) + length (filter (\<lambda>t. sig t \<noteq> sig s) ss) = length ss"
    using sum_length_filter_compl[of "\<lambda>t. sig t = sig s" ss] by simp
  with 2 show ?case by simp
qed

lemma groupBySignature_nonempty: "[] \<notin> set (groupBySignature sig ss)"
  by (induction sig ss rule: groupBySignature.induct) auto

lemma potential_newBlocks:
  "potential (newBlocks r a flag h groups) = sum_list (map (\<lambda>g. length g - 1) groups)"
proof -
  have "map (\<lambda>b. length (states b) - 1) (newBlocks r a flag h groups) =
        map ((\<lambda>g. length g - 1) \<circ> snd) (enumerate h groups)"
    by (simp add: newBlocks_def case_prod_beta comp_def)
  also have "\<dots> = map (\<lambda>g. length g - 1) (map snd (enumerate h groups))"
    by (simp only: map_map)
  also have "\<dots> = map (\<lambda>g. length g - 1) groups"
    by (simp only: map_snd_enumerate)
  finally show ?thesis by (simp add: potential_def)
qed

lemma groups_potential:
  assumes "[] \<notin> set groups"
  shows "sum_list (map (\<lambda>g. length g - 1) groups) + length groups = sum_list (map length groups)"
  using assms
proof (induction groups)
  case Nil
  then show ?case by simp
next
  case (Cons g gs)
  then have "g \<noteq> []" by auto
  then have "length g - 1 + 1 = length g" by (cases g) auto
  with Cons show ?case by simp
qed

definition proper :: "(Block \<Rightarrow> state_type list list) \<Rightarrow> bool" where
  "proper f = (\<forall>b. 1 < length (f b) \<longrightarrow>
                 [] \<notin> set (f b) \<and> sum_list (map length (f b)) = length (states b))"

lemma potential_split_block:
  assumes "proper f" "1 < length (f b)"
  shows "potential (newBlocks r a flag h (f b)) < length (states b) - 1"
  using groups_potential[of "f b"] assms
  by (simp add: potential_newBlocks proper_def)

lemma potential_append: "potential (xs @ ys) = potential xs + potential ys"
  by (simp add: potential_def)

lemma potential_Cons: "potential (b # bs) = (length (states b) - 1) + potential bs"
  by (simp add: potential_def)

lemma splitBlocks_Cons_split:
  assumes "1 < length (f b)" "splitBlocks flag f bs (h + length (f b)) = (bs', h')"
  shows "splitBlocks flag f (b # bs) h = (newBlocks (representativeState b) (absorbing b) flag h (f b) @ bs', h')"
  using assms by (simp add: Let_def)

lemma splitBlocks_Cons_keep:
  assumes "\<not> 1 < length (f b)" "splitBlocks flag f bs h = (bs', h')"
  shows "splitBlocks flag f (b # bs) h = (b # bs', h')"
  using assms by (simp add: Let_def)

lemma splitBlocks_unchanged_or_less:
  assumes "proper f"
  shows "splitBlocks flag f bs h = (bs, h) \<or> potential (fst (splitBlocks flag f bs h)) < potential bs"
proof (induction bs arbitrary: h)
  case Nil
  then show ?case by simp
next
  case (Cons b bs)
  show ?case
  proof (cases "1 < length (f b)")
    case True
    obtain bs' h' where rec: "splitBlocks flag f bs (h + length (f b)) = (bs', h')"
      by (cases "splitBlocks flag f bs (h + length (f b))")
    have le: "potential bs' \<le> potential bs"
      using Cons.IH[of "h + length (f b)"] rec by auto
    have lt: "potential (newBlocks (representativeState b) (absorbing b) flag h (f b)) < length (states b) - 1"
      by (rule potential_split_block[OF assms True])
    have "potential (newBlocks (representativeState b) (absorbing b) flag h (f b) @ bs') < potential (b # bs)"
      unfolding potential_append potential_Cons using le lt by linarith
    then show ?thesis
      unfolding splitBlocks_Cons_split[OF True rec] by simp
  next
    case False
    obtain bs' h' where rec: "splitBlocks flag f bs h = (bs', h')"
      by (cases "splitBlocks flag f bs h")
    from Cons.IH[of h] rec have "(bs' = bs \<and> h' = h) \<or> potential bs' < potential bs" by auto
    then show ?thesis
      unfolding splitBlocks_Cons_keep[OF False rec] by (auto simp: potential_Cons)
  qed
qed

lemma proper_subBlocks: "proper (subBlocks t bt S)"
  by (simp add: proper_def subBlocks_def groupBySignature_lengths groupBySignature_nonempty)

lemma nextSplitter_length:
  "splitterVector \<noteq> [] \<Longrightarrow> length (snd (nextSplitter P splitterVector)) < length splitterVector"
  by (simp add: nextSplitter_def Let_def)

lemma states_setSplitter: "map states (getBlocks (setSplitter h v P)) = map states (getBlocks P)"
  by (simp add: setSplitter_def comp_def if_distrib[of states])

lemma potential_states: "potential bs = sum_list (map (\<lambda>ss. length ss - 1) (map states bs))"
  by (simp add: potential_def comp_def)

lemma potential_setSplitter: "potential (getBlocks (setSplitter h v P)) = potential (getBlocks P)"
  by (simp only: potential_states states_setSplitter)

lemma refine_decreases:
  assumes "refinePartitionBasedOnSplitter t bt h sv Q = (P', sv')"
  shows "potential (getBlocks P') < potential (getBlocks Q) \<or>
         (potential (getBlocks P') = potential (getBlocks Q) \<and> length sv' \<le> length sv)"
proof -
  let ?S = "case getBlock Q h of Some b \<Rightarrow> states b | None \<Rightarrow> []"
  let ?f = "subBlocks t bt ?S"
  obtain bs' h' where sp: "splitBlocks True ?f (getBlocks Q) (nextHandle Q) = (bs', h')"
    by (cases "splitBlocks True ?f (getBlocks Q) (nextHandle Q)")
  have P': "getBlocks P' = bs'" "nextHandle P' = h'"
    using assms sp by (auto simp: refinePartitionBasedOnSplitter_def Let_def splitPartition_def)
  have sv': "sv' = filter (\<lambda>x. x \<in> handle ` set bs') sv @ [nextHandle Q..<h']"
    using assms sp by (auto simp: refinePartitionBasedOnSplitter_def Let_def splitPartition_def)
  have pr: "proper ?f" by (rule proper_subBlocks)
  from splitBlocks_unchanged_or_less[OF pr, of True "getBlocks Q" "nextHandle Q"]
  have "(bs' = getBlocks Q \<and> h' = nextHandle Q) \<or> potential bs' < potential (getBlocks Q)"
    using sp by auto
  then show ?thesis
  proof
    assume u: "bs' = getBlocks Q \<and> h' = nextHandle Q"
    have "length (filter (\<lambda>x. x \<in> handle ` set bs') sv) \<le> length sv" by simp
    then show ?thesis using u P' sv' by simp
  next
    assume "potential bs' < potential (getBlocks Q)"
    then show ?thesis using P' by simp
  qed
qed

lemma refinementIteration_decreases:
  assumes "sv \<noteq> []" "refinementIteration t bt (P, sv) = (P', sv')"
  shows "potential (getBlocks P') < potential (getBlocks P) \<or>
         (potential (getBlocks P') = potential (getBlocks P) \<and> length sv' < length sv)"
proof -
  obtain h sv1 where ns: "nextSplitter P sv = (h, sv1)" by (cases "nextSplitter P sv")
  have l1: "length sv1 < length sv" using nextSplitter_length[OF assms(1), of P] ns by simp
  have r: "refinePartitionBasedOnSplitter t bt h sv1 (setSplitter h False P) = (P', sv')"
    using assms(2) ns by (simp add: refinementIteration_def)
  show ?thesis
    using refine_decreases[OF r] l1 by (auto simp: potential_setSplitter)
qed

text \<open>The loop of \<^verbatim>\<open>performPartitionRefinement\<close>, lines 239-252.\<close>

function refinementLoop ::
  "BisimulationType \<Rightarrow> BackwardTransitions \<Rightarrow> Partition \<times> nat list \<Rightarrow> Partition \<times> nat list" where
  "refinementLoop t bt st =
     (if snd st = [] then st else refinementLoop t bt (refinementIteration t bt st))"
  by pat_completeness auto
termination
proof (relation "measures [\<lambda>(t, bt, st). potential (getBlocks (fst st)), \<lambda>(t, bt, st). length (snd st)]")
  show "wf (measures [\<lambda>(t, bt, st). potential (getBlocks (fst st)), \<lambda>(t, bt, st). length (snd st)])"
    by simp
next
  fix t :: BisimulationType and bt :: BackwardTransitions and st :: "Partition \<times> nat list"
  assume ne: "snd st \<noteq> []"
  obtain P sv where st: "st = (P, sv)" by (cases st)
  obtain P' sv' where it: "refinementIteration t bt (P, sv) = (P', sv')"
    by (cases "refinementIteration t bt (P, sv)")
  from refinementIteration_decreases[OF _ it] ne st
  show "((t, bt, refinementIteration t bt st), (t, bt, st))
        \<in> measures [\<lambda>(t, bt, st). potential (getBlocks (fst st)), \<lambda>(t, bt, st). length (snd st)]"
    by (auto simp: it)
qed

declare refinementLoop.simps [simp del]

lemma refinementLoop_done: "snd st = [] \<Longrightarrow> refinementLoop t bt st = st"
  by (subst refinementLoop.simps) simp

lemma refinementLoop_step:
  "snd st \<noteq> [] \<Longrightarrow> refinementLoop t bt st = refinementLoop t bt (refinementIteration t bt st)"
  by (subst refinementLoop.simps) simp


subsection \<open>The decomposition\<close>

datatype Exception = IllegalFunctionCallException | InvalidOptionException | AssertionFailed

text \<open>
  The members of the class. \<open>blocks\<close> is the block list of the base class
  \<^verbatim>\<open>Decomposition\<close>; the quotient starts as the null pointer. The member \<^verbatim>\<open>comparator\<close> is
  not used by this file and is left out.
\<close>

record BisimulationDecomposition =
  model :: Model
  backwardTransitions :: BackwardTransitions
  options :: Options
  partition_m :: Partition
  quotient_m :: "Model option"
  blocks :: "state_type list list"

definition getUniqueRewardModel :: "Model \<Rightarrow> RewardModel option" where
  \<comment> \<open>Modelled from the spec: the one reward model of the model. \<open>None\<close>: the model does not
      have exactly one reward model, and the call throws.\<close>
  "getUniqueRewardModel m = (case rewardModels m of [(name, r)] \<Rightarrow> Some r | _ \<Rightarrow> None)"

definition BisimulationDecomposition_init ::
  "Model \<Rightarrow> (state_type \<times> ValueType) list list \<Rightarrow> Options \<Rightarrow> Exception + BisimulationDecomposition" where
  \<comment> \<open>The constructor, lines 168-178; each \<^verbatim>\<open>STORM_LOG_THROW\<close> throws when its condition
      fails.\<close>
  "BisimulationDecomposition_init m bt opts =
     (if \<not> (\<not> keepRewards opts \<or> \<not> hasRewardModel m \<or> hasUniqueRewardModel m)
      then Inl IllegalFunctionCallException
      else if \<not> (\<not> keepRewards opts \<or> \<not> hasRewardModel m \<or>
                  (case getUniqueRewardModel m of Some r \<Rightarrow> hasOnlyStateRewards r | None \<Rightarrow> False))
      then Inl IllegalFunctionCallException
      else if \<not> (otype opts \<noteq> Weak \<or> \<not> bounded opts)
      then Inl IllegalFunctionCallException
      else Inr \<lparr> model = m, backwardTransitions = bt,
                 options = (if respectedAtomicPropositions opts = None
                            then opts\<lparr>respectedAtomicPropositions := Some (getLabels m)\<rparr>
                            else opts),
                 partition_m = \<lparr> getBlocks = [], nextHandle = 0 \<rparr>,
                 quotient_m = None, blocks = [] \<rparr>)"

definition BisimulationDecomposition_init_model ::
  "Model \<Rightarrow> Options \<Rightarrow> Exception + BisimulationDecomposition" where
  \<comment> \<open>The constructor of lines 163-166.\<close>
  "BisimulationDecomposition_init_model m opts =
     BisimulationDecomposition_init m (getBackwardTransitions m) opts"

definition splitInitialPartitionBasedOnStateRewards ::
  "BisimulationDecomposition \<Rightarrow> Exception + BisimulationDecomposition" where
  "splitInitialPartitionBasedOnStateRewards d =
     (case getUniqueRewardModel (model d) of
        None \<Rightarrow> Inl IllegalFunctionCallException
      | Some r \<Rightarrow>
          Inr (d\<lparr>partition_m :=
                   split_less (\<lambda>a b. stateRewardVector r ! a < stateRewardVector r ! b)
                     (partition_m d)\<rparr>))"

definition initializeLabelBasedPartition ::
  "BisimulationDecomposition \<Rightarrow> Exception + BisimulationDecomposition" where
  \<comment> \<open>The labels are visited in the order of the \<^verbatim>\<open>std::set\<close>. \<open>AssertionFailed\<close>: the
      optional is read while it is absent, which the constructor rules out.\<close>
  "initializeLabelBasedPartition d =
     (case respectedAtomicPropositions (options d) of
        None \<Rightarrow> Inl AssertionFailed
      | Some aps \<Rightarrow>
          (let P = foldl (\<lambda>P label. if label = ''init'' then P
                                     else splitStates (getStates (model d) label) P)
                     (Partition_trivial (numberOfStates (model d)))
                     (sorted_list_of_set aps);
               d1 = d\<lparr>partition_m := P\<rparr>
           in if keepRewards (options d) \<and> hasRewardModel (model d)
              then splitInitialPartitionBasedOnStateRewards d1
              else Inr d1))"

definition getStatesWithProbability01 :: "Model \<Rightarrow> BitVector \<Rightarrow> BitVector \<Rightarrow> BitVector \<times> BitVector" where
  \<comment> \<open>Modelled from the spec: implemented by the subclasses, which are not in the sources; the
      states with probability 0 and 1 for the phi and psi states of the options.\<close>
  "getStatesWithProbability01 m phi psi = performProb01 m phi psi"

definition initializeMeasureDrivenPartition ::
  "BisimulationDecomposition \<Rightarrow> Exception + BisimulationDecomposition" where
  \<comment> \<open>\<open>AssertionFailed\<close>: an optional is read while it is absent, which the checks of
      \<^verbatim>\<open>computeBisimulationDecomposition\<close> rule out.\<close>
  "initializeMeasureDrivenPartition d =
     (case (phiStates (options d), psiStates (options d)) of
        (Some phi, Some psi) \<Rightarrow>
          (let statesWithProbability01 = getStatesWithProbability01 (model d) phi psi;
               representativePsiState = (if \<not> bv_empty psi then Some (bv_begin psi) else None);
               P = Partition_measureDriven (numberOfStates (model d)) (fst statesWithProbability01)
                     (if bounded (options d) \<or> keepRewards (options d)
                      then psi else snd statesWithProbability01)
                     representativePsiState;
               d1 = d\<lparr>partition_m := P\<rparr>
           in if keepRewards (options d) \<and> hasRewardModel (model d)
              then splitInitialPartitionBasedOnStateRewards d1
              else Inr d1)
      | _ \<Rightarrow> Inl AssertionFailed)"

definition initializeInitialPartition ::
  "BisimulationDecomposition \<Rightarrow> Exception + BisimulationDecomposition" where
  \<comment> \<open>Lines 186-192 of \<^verbatim>\<open>computeBisimulationDecomposition\<close>.\<close>
  "initializeInitialPartition d =
     (if measureDrivenInitialPartition (options d) then
        (if phiStates (options d) = None then Inl InvalidOptionException
         else if psiStates (options d) = None then Inl InvalidOptionException
         else initializeMeasureDrivenPartition d)
      else initializeLabelBasedPartition d)"

definition initialRefinementState :: "Partition \<Rightarrow> Partition \<times> nat list" where
  \<comment> \<open>Lines 234-235: every block is flagged and put into the splitter vector.\<close>
  "initialRefinementState P =
     (let P0 = P\<lparr>getBlocks := map (\<lambda>b. b\<lparr>splitter := True\<rparr>) (getBlocks P)\<rparr>
      in (P0, map handle (getBlocks P0)))"

definition performPartitionRefinement :: "BisimulationDecomposition \<Rightarrow> BisimulationDecomposition" where
  \<comment> \<open>Lines 232-253: the loop runs on the partition and on the backward transitions of the
      decomposition.\<close>
  "performPartitionRefinement d =
     d\<lparr>partition_m :=
         fst (refinementLoop (otype (options d)) (backwardTransitions d)
                (initialRefinementState (partition_m d)))\<rparr>"

definition extractDecompositionBlocks :: "BisimulationDecomposition \<Rightarrow> BisimulationDecomposition" where
  \<comment> \<open>The id of a block is its position in the partition (the spec: dense ids, assigned at
      extraction), so \<^verbatim>\<open>blocks[id]\<close> is filled position by position with the sorted block.\<close>
  "extractDecompositionBlocks d =
     d\<lparr>blocks := map (\<lambda>b. sort (states b)) (getBlocks (partition_m d))\<rparr>"

definition blockRepresentative :: "Block \<Rightarrow> state_type" where
  \<comment> \<open>Modelled from the spec: "one representative state per block"; the designated one, or
      else the first state of the block.\<close>
  "blockRepresentative b =
     (case representativeState b of
        Some r \<Rightarrow> r
      | None \<Rightarrow> (case states b of s # ss \<Rightarrow> s | [] \<Rightarrow> 0))"

definition buildQuotient_m :: "BisimulationDecomposition \<Rightarrow> BisimulationDecomposition" where
  \<comment> \<open>Modelled from the spec: \<^verbatim>\<open>buildQuotient\<close> is implemented by the subclasses, which are
      not in the sources. One state per block, "transition probabilities aggregated from
      representative states", one label set per block and, if rewards are kept, one reward value
      per block.\<close>
  "buildQuotient_m d =
     (let m = model d; bs = getBlocks (partition_m d); reps = map blockRepresentative bs
      in d\<lparr>quotient_m := Some
           \<lparr> numberOfStates = length bs,
             transitionMatrix =
               map (\<lambda>r. filter (\<lambda>(c, v). v \<noteq> 0)
                          (map (\<lambda>(j, b). (j, probabilityToBlock m (states b) r)) (enumerate 0 bs)))
                   reps,
             stateLabeling = map (\<lambda>(l, bv). (l, map (bv_get bv) reps)) (stateLabeling m),
             rewardModels =
               (if keepRewards (options d)
                then map (\<lambda>(name, r). (name, r\<lparr>stateRewardVector :=
                            map (\<lambda>s. stateRewardVector r ! s) reps\<rparr>)) (rewardModels m)
                else []) \<rparr>\<rparr>)"

definition computeBisimulationDecomposition ::
  "BisimulationDecomposition \<Rightarrow> Exception + BisimulationDecomposition" where
  \<comment> \<open>Lines 181-229. \<^verbatim>\<open>initialize()\<close> is empty; the time measurements and the statistics
      they print do not touch the decomposition and are left out.\<close>
  "computeBisimulationDecomposition d =
     (case initializeInitialPartition d of
        Inl e \<Rightarrow> Inl e
      | Inr d1 \<Rightarrow>
          (let d2 = performPartitionRefinement d1;
               d3 = extractDecompositionBlocks d2
           in Inr (if buildQuotient (options d3) then buildQuotient_m d3 else d3)))"

definition getQuotient :: "BisimulationDecomposition \<Rightarrow> Exception + Model" where
  "getQuotient d =
     (case quotient_m d of
        None \<Rightarrow> Inl IllegalFunctionCallException
      | Some q \<Rightarrow> Inr q)"

definition decompose ::
  "Model \<Rightarrow> (state_type \<times> ValueType) list list \<Rightarrow> Options \<Rightarrow> Exception + BisimulationDecomposition" where
  \<comment> \<open>Construction followed by the computation: what a caller runs to get a decomposition.\<close>
  "decompose m bt opts =
     (case BisimulationDecomposition_init m bt opts of
        Inl e \<Rightarrow> Inl e
      | Inr d \<Rightarrow> computeBisimulationDecomposition d)"

subsection \<open>Properties of partitions\<close>

text \<open>
  What the claims say about partitions, as definitions: a key that is the same for all states of
  a block, blocks that all agree on a key, blocks with handles of their own below the next handle,
  blocks of distinct states of the model, a partition without an absorbing block, the property
  the refinement loop keeps (every block not pending as a splitter already splits no block that
  is not absorbing), the states of the loop, and the two state sets that seed the
  measure-driven partition.
\<close>

definition uniformOn :: "(state_type \<Rightarrow> 'a) \<Rightarrow> state_type list \<Rightarrow> bool" where
  "uniformOn k B = (\<forall>s\<in>set B. \<forall>t\<in>set B. k s = k t)"

definition blocksUniform :: "(state_type \<Rightarrow> ValueType) \<Rightarrow> Partition \<Rightarrow> bool" where
  "blocksUniform k P = (\<forall>b\<in>set (getBlocks P). uniformOn k (states b))"





inductive refinementReaches ::
  "BisimulationType \<Rightarrow> BackwardTransitions \<Rightarrow> Partition \<times> nat list \<Rightarrow> Partition \<times> nat list \<Rightarrow>
   bool"
  for t :: BisimulationType and bt :: BackwardTransitions and st0 :: "Partition \<times> nat list" where
  start: "refinementReaches t bt st0 st0"
| step: "refinementReaches t bt st0 st \<Longrightarrow> snd st \<noteq> [] \<Longrightarrow>
         refinementReaches t bt st0 (refinementIteration t bt st)"

definition measureDrivenSeeds ::
  "BisimulationDecomposition \<Rightarrow> BitVector \<Rightarrow> BitVector \<Rightarrow> BitVector \<times> BitVector" where
  "measureDrivenSeeds d phi psi =
     (fst (performProb01 (model d) phi psi),
      if bounded (options d) \<or> keepRewards (options d) then psi
      else snd (performProb01 (model d) phi psi))"

subsection \<open>Example inputs\<close>

text \<open>A chain of two states: state 0 moves to state 1, which carries the label \<open>a\<close> and stays there.\<close>

definition chainModel :: Model where
  "chainModel = \<lparr> numberOfStates = 2, transitionMatrix = [[(1, 1)], [(1, 1)]],
     stateLabeling = [(''a'', [False, True])], rewardModels = [] \<rparr>"

definition eventuallyA :: Formula where
  "eventuallyA = ProbabilityOperatorFormula None None (EventuallyFormula (AtomicLabelFormula ''a''))"

definition boundedNextA :: Formula where
  "boundedNextA =
     ProbabilityOperatorFormula None (Some (Less, 1 / 2)) (NextFormula (AtomicLabelFormula ''a''))"

definition boundedUntilAB :: Formula where
  "boundedUntilAB =
     ProbabilityOperatorFormula None (Some (LessEqual, 1 / 2))
       (UntilFormula (AtomicLabelFormula ''b'') (AtomicLabelFormula ''a''))"

definition rewardNextX :: Formula where
  "rewardNextX =
     RewardOperatorFormula None (Some Minimize) None (NextFormula (AtomicExpressionFormula ''x > 1''))"

text \<open>The chain with two reward models, and with one reward model that has transition rewards.\<close>

definition twoRewardsModel :: Model where
  "twoRewardsModel = chainModel\<lparr>rewardModels :=
     [(''steps'', \<lparr> stateRewardVector = [1, 0], hasTransitionRewards = False \<rparr>),
      (''cost'', \<lparr> stateRewardVector = [2, 2], hasTransitionRewards = False \<rparr>)]\<rparr>"

definition transitionRewardsModel :: Model where
  "transitionRewardsModel = chainModel\<lparr>rewardModels :=
     [(''steps'', \<lparr> stateRewardVector = [1, 0], hasTransitionRewards = True \<rparr>)]\<rparr>"

text \<open>The decomposition the constructor returns for the chain and the default options.\<close>

definition freshDecomposition :: BisimulationDecomposition where
  "freshDecomposition = \<lparr> model = chainModel, backwardTransitions = [[], [(0, 1), (1, 1)]],
     options = Options_default\<lparr>respectedAtomicPropositions := Some {''a''}\<rparr>,
     partition_m = \<lparr> getBlocks = [], nextHandle = 0 \<rparr>, quotient_m = None, blocks = [] \<rparr>"

definition twoBlocks :: Partition where
  "twoBlocks = \<lparr> getBlocks =
       [\<lparr> handle = 0, states = [0, 1], splitter = True, absorbing = False, representativeState = None \<rparr>,
        \<lparr> handle = 1, states = [2], splitter = True, absorbing = False, representativeState = None \<rparr>],
     nextHandle = 2 \<rparr>"

definition weakBounded :: Options where
  "weakBounded = Options_default\<lparr>otype := Weak, bounded := True\<rparr>"

definition keepingRewards :: Options where
  "keepingRewards = Options_default\<lparr>keepRewards := True\<rparr>"

definition measureDrivenWithoutStates :: BisimulationDecomposition where
  "measureDrivenWithoutStates =
     freshDecomposition\<lparr>options := Options_default\<lparr>measureDrivenInitialPartition := True\<rparr>\<rparr>"

text \<open>
  State 0 stays where it is with probability 1/2 before it moves to state 2, which state 1
  does at once.
\<close>

definition lazyModel :: Model where
  "lazyModel = \<lparr> numberOfStates = 3,
     transitionMatrix = [[(0, 1 / 2), (2, 1 / 2)], [(2, 1)], [(2, 1)]],
     stateLabeling = [(''a'', [False, False, True])], rewardModels = [] \<rparr>"

text \<open>States 0 and 1 both move to state 2 or state 3, each with probability 1/2.\<close>

definition forkModel :: Model where
  "forkModel = \<lparr> numberOfStates = 4,
     transitionMatrix = [[(2, 1 / 2), (3, 1 / 2)], [(2, 1 / 2), (3, 1 / 2)], [(2, 1)], [(3, 1)]],
     stateLabeling = [(''a'', [False, False, True, False])], rewardModels = [] \<rparr>"


definition rewardForkModel :: Model where
  "rewardForkModel = forkModel\<lparr>rewardModels :=
     [(''cost'', \<lparr> stateRewardVector = [1, 1, 0, 0], hasTransitionRewards = False \<rparr>)]\<rparr>"

definition rewardForkDecomposition :: BisimulationDecomposition where
  "rewardForkDecomposition = \<lparr> model = rewardForkModel,
     backwardTransitions = getBackwardTransitions rewardForkModel,
     options = Options_default\<lparr>respectedAtomicPropositions := Some {''a''}, keepRewards := True\<rparr>,
     partition_m = \<lparr> getBlocks = [], nextHandle = 0 \<rparr>, quotient_m = None, blocks = [] \<rparr>"

text \<open>The decomposition of the chain with the options of the formula "eventually a".\<close>

definition chainMeasureDriven :: BisimulationDecomposition where
  "chainMeasureDriven = freshDecomposition\<lparr>options :=
     \<lparr> measureDrivenInitialPartition = True, phiStates = Some [True, True],
       psiStates = Some [False, True], optimalityType = None,
       respectedAtomicPropositions = Some {''a''}, buildQuotient = True,
       keepRewards = False, otype = Strong, bounded = False \<rparr>\<rparr>"




section \<open>Properties of the options\<close>

lemma unwrapOperator_snd: "snd (unwrapOperator f opts) = unwrapped f"
  by (simp add: unwrapOperator_def unwrapped_def split: Formula.splits)

lemma inferOptimalityType_fields:
  "measureDrivenInitialPartition (inferOptimalityType ot bnd opts) = measureDrivenInitialPartition opts"
  "phiStates (inferOptimalityType ot bnd opts) = phiStates opts"
  "psiStates (inferOptimalityType ot bnd opts) = psiStates opts"
  "respectedAtomicPropositions (inferOptimalityType ot bnd opts) = respectedAtomicPropositions opts"
  "keepRewards (inferOptimalityType ot bnd opts) = keepRewards opts"
  "bounded (inferOptimalityType ot bnd opts) = bounded opts"
  "buildQuotient (inferOptimalityType ot bnd opts) = buildQuotient opts"
  "otype (inferOptimalityType ot bnd opts) = otype opts"
  by (simp_all add: inferOptimalityType_def split: option.splits prod.splits)

lemma unwrapOperator_fields:
  "measureDrivenInitialPartition (fst (unwrapOperator f opts)) = measureDrivenInitialPartition opts"
  "phiStates (fst (unwrapOperator f opts)) = phiStates opts"
  "psiStates (fst (unwrapOperator f opts)) = psiStates opts"
  "respectedAtomicPropositions (fst (unwrapOperator f opts)) = respectedAtomicPropositions opts"
  "keepRewards (fst (unwrapOperator f opts)) = keepRewards opts"
  "bounded (fst (unwrapOperator f opts)) = bounded opts"
  "buildQuotient (fst (unwrapOperator f opts)) = buildQuotient opts"
  "otype (fst (unwrapOperator f opts)) = otype opts"
  by (simp_all add: unwrapOperator_def inferOptimalityType_fields split: Formula.splits)

lemma checkAndSet_applies:
  assumes "\<not> measureDrivenInitialPartition opts" "untilOrEventuallyWithPropositionalSides (unwrapped f)"
  shows "checkAndSetMeasureDrivenInitialPartition m f opts =
         Some ((fst (unwrapOperator f opts))\<lparr>measureDrivenInitialPartition := True,
                 phiStates := check m (leftSide (unwrapped f)),
                 psiStates := check m (rightSide (unwrapped f))\<rparr>)"
proof -
  obtain o1 where u: "unwrapOperator f opts = (o1, unwrapped f)"
    using unwrapOperator_snd[of f opts] by (cases "unwrapOperator f opts") simp
  show ?thesis
    using assms(2)
    by (cases "unwrapped f")
       (simp_all add: checkAndSetMeasureDrivenInitialPartition_def u reachabilitySides_def
          untilOrEventuallyWithPropositionalSides_def leftSide_def rightSide_def check_def)
qed

lemma checkAndSet_not_applies:
  assumes "\<not> measureDrivenInitialPartition opts" "\<not> untilOrEventuallyWithPropositionalSides (unwrapped f)"
  shows "checkAndSetMeasureDrivenInitialPartition m f opts =
         Some ((fst (unwrapOperator f opts))\<lparr>optimalityType := None\<rparr>)"
proof -
  obtain o1 where u: "unwrapOperator f opts = (o1, unwrapped f)"
    using unwrapOperator_snd[of f opts] by (cases "unwrapOperator f opts") simp
  have md: "\<not> measureDrivenInitialPartition o1"
    using unwrapOperator_fields(1)[of f opts] u assms(1) by simp
  show ?thesis
    using assms(2) md
    by (cases "unwrapped f")
       (auto simp: checkAndSetMeasureDrivenInitialPartition_def u reachabilitySides_def
          untilOrEventuallyWithPropositionalSides_def)
qed

lemma addToRespected_fields:
  "measureDrivenInitialPartition (addToRespectedAtomicPropositions es ls opts) = measureDrivenInitialPartition opts"
  "phiStates (addToRespectedAtomicPropositions es ls opts) = phiStates opts"
  "psiStates (addToRespectedAtomicPropositions es ls opts) = psiStates opts"
  "optimalityType (addToRespectedAtomicPropositions es ls opts) = optimalityType opts"
  "keepRewards (addToRespectedAtomicPropositions es ls opts) = keepRewards opts"
  "bounded (addToRespectedAtomicPropositions es ls opts) = bounded opts"
  "buildQuotient (addToRespectedAtomicPropositions es ls opts) = buildQuotient opts"
  "otype (addToRespectedAtomicPropositions es ls opts) = otype opts"
  by (simp_all add: addToRespectedAtomicPropositions_def Let_def split: option.splits)

lemma addToRespected_respected:
  "respectedAtomicPropositions (addToRespectedAtomicPropositions es ls opts) =
     Some ((case respectedAtomicPropositions opts of None \<Rightarrow> {} | Some aps \<Rightarrow> aps) \<union> (set ls \<union> set es))"
  by (simp add: addToRespectedAtomicPropositions_def Let_def split: option.splits)

lemma inferOptimalityType_optimalityType:
  "optimalityType opts = None \<Longrightarrow>
   optimalityType (inferOptimalityType ot bnd opts) = inferredDirection ot bnd"
  by (simp add: inferOptimalityType_def inferredDirection_def split: option.splits prod.splits)

lemma unwrapOperator_optimalityType:
  "optimalityType opts = None \<Longrightarrow>
   optimalityType (fst (unwrapOperator f opts)) =
     (case operatorParts f of None \<Rightarrow> None | Some (ot, bnd) \<Rightarrow> inferredDirection ot bnd)"
  by (simp add: unwrapOperator_def operatorParts_def inferOptimalityType_optimalityType
      split: Formula.splits)

lemma preserveSingleFormula_eq:
  "preserveSingleFormula m f opts =
     checkAndSetMeasureDrivenInitialPartition m f (singleFormulaStart f opts)"
  by (simp add: preserveSingleFormula_def singleFormulaStart_def Let_def)

lemma singleFormulaStart_fields:
  "measureDrivenInitialPartition (singleFormulaStart f opts) = measureDrivenInitialPartition opts"
  "optimalityType (singleFormulaStart f opts) = optimalityType opts"
  by (simp_all add: singleFormulaStart_def addToRespected_fields)

lemma preserveSingleFormula_applies:
  assumes "\<not> measureDrivenInitialPartition opts" "optimalityType opts = None"
    "untilOrEventuallyWithPropositionalSides (unwrapped f)"
  shows "\<exists>opts'. preserveSingleFormula m f opts = Some opts' \<and>
           measureDrivenInitialPartition opts' \<and>
           phiStates opts' = check m (leftSide (unwrapped f)) \<and>
           psiStates opts' = check m (rightSide (unwrapped f)) \<and>
           optimalityType opts' =
             (case operatorParts f of None \<Rightarrow> None | Some (ot, bnd) \<Rightarrow> inferredDirection ot bnd)"
proof -
  let ?s = "singleFormulaStart f opts"
  have md: "\<not> measureDrivenInitialPartition ?s" and ot: "optimalityType ?s = None"
    using assms(1,2) by (simp_all add: singleFormulaStart_fields)
  show ?thesis
    unfolding preserveSingleFormula_eq checkAndSet_applies[OF md assms(3)]
    by (simp add: unwrapOperator_optimalityType[OF ot])
qed

lemma preserveSingleFormula_not_applies:
  assumes "\<not> measureDrivenInitialPartition opts"
    "\<not> untilOrEventuallyWithPropositionalSides (unwrapped f)"
  shows "\<exists>opts'. preserveSingleFormula m f opts = Some opts' \<and>
           \<not> measureDrivenInitialPartition opts' \<and> optimalityType opts' = None"
proof -
  let ?s = "singleFormulaStart f opts"
  have md: "\<not> measureDrivenInitialPartition ?s"
    using assms(1) by (simp add: singleFormulaStart_fields)
  show ?thesis
    unfolding preserveSingleFormula_eq checkAndSet_not_applies[OF md assms(2)]
    using md by (simp add: unwrapOperator_fields)
qed

lemma Options_default_fields:
  "\<not> measureDrivenInitialPartition Options_default" "optimalityType Options_default = None"
  by (simp_all add: Options_default_def)

lemma Options_formulas_single: "Options_formulas m [f] = Options_formula m f"
  by (simp add: Options_formulas_def Options_formula_def)

lemma preserveFormula_fields:
  "\<not> measureDrivenInitialPartition (preserveFormula m f opts)"
  "phiStates (preserveFormula m f opts) = None"
  "psiStates (preserveFormula m f opts) = None"
  "optimalityType (preserveFormula m f opts) = optimalityType opts"
  "keepRewards (preserveFormula m f opts) = (keepRewards opts \<or> containsRewardOperator f)"
  "bounded (preserveFormula m f opts) =
     (bounded opts \<or> containsBoundedUntilFormula f \<or> containsNextFormula f)"
  "respectedAtomicPropositions (preserveFormula m f opts) =
     Some ((case respectedAtomicPropositions opts of None \<Rightarrow> {} | Some aps \<Rightarrow> aps) \<union>
           (set (getAtomicLabelFormulas f) \<union> set (getAtomicExpressionFormulas f)))"
  by (simp_all add: preserveFormula_def Let_def addToRespected_fields addToRespected_respected)

lemma foldl_preserveFormula:
  "keepRewards (foldl (\<lambda>opts formula. preserveFormula m formula opts) opts fs) =
     (keepRewards opts \<or> (\<exists>f\<in>set fs. containsRewardOperator f))"
  "bounded (foldl (\<lambda>opts formula. preserveFormula m formula opts) opts fs) =
     (bounded opts \<or> (\<exists>f\<in>set fs. containsBoundedUntilFormula f \<or> containsNextFormula f))"
  "optimalityType (foldl (\<lambda>opts formula. preserveFormula m formula opts) opts fs) =
     optimalityType opts"
  "fs \<noteq> [] \<Longrightarrow>
   respectedAtomicPropositions (foldl (\<lambda>opts formula. preserveFormula m formula opts) opts fs) =
     Some ((case respectedAtomicPropositions opts of None \<Rightarrow> {} | Some aps \<Rightarrow> aps) \<union>
           (\<Union>f\<in>set fs. set (getAtomicLabelFormulas f) \<union> set (getAtomicExpressionFormulas f)))"
  "fs \<noteq> [] \<Longrightarrow>
   \<not> measureDrivenInitialPartition (foldl (\<lambda>opts formula. preserveFormula m formula opts) opts fs) \<and>
   phiStates (foldl (\<lambda>opts formula. preserveFormula m formula opts) opts fs) = None \<and>
   psiStates (foldl (\<lambda>opts formula. preserveFormula m formula opts) opts fs) = None"
proof (induction fs arbitrary: opts rule: rev_induct)
  case Nil
  { case 1 show ?case by simp }
  { case 2 show ?case by simp }
  { case 3 show ?case by simp }
  { case 4 then show ?case by simp }
  { case 5 then show ?case by simp }
next
  case (snoc x xs)
  { case 1 show ?case by (auto simp: preserveFormula_fields snoc.IH(1)) }
  { case 2 show ?case by (auto simp: preserveFormula_fields snoc.IH(2)) }
  { case 3 show ?case by (simp add: preserveFormula_fields snoc.IH(3)) }
  { case 4 show ?case
      by (cases "xs = []") (auto simp: preserveFormula_fields snoc.IH(4) split: option.splits) }
  { case 5 show ?case by (simp add: preserveFormula_fields) }
qed

lemma applies_sides_propositional:
  "untilOrEventuallyWithPropositionalSides g \<Longrightarrow>
   isPropositional (leftSide g) \<and> isPropositional (rightSide g)"
  by (cases g) (simp_all add: untilOrEventuallyWithPropositionalSides_def leftSide_def rightSide_def)

text \<open>
  Claim C4, as it holds. When the formula below a leading operator is an until or an eventually
  formula with propositional sides, the measure-driven initial partition is enabled, and the phi
  and psi states of the options are the states that satisfy the left side (every state, for an
  eventually formula) and the right side, as the propositional model checker computes them.
\<close>

theorem measure_driven_phi_psi_are_satisfaction_sets:
  assumes "untilOrEventuallyWithPropositionalSides (unwrapped f)"
  shows "\<exists>opts. Options_formula m f = Some opts \<and> Options_formulas m [f] = Some opts \<and>
           measureDrivenInitialPartition opts \<and>
           phiStates opts = Some (map (sat m (leftSide (unwrapped f))) [0..<numberOfStates m]) \<and>
           psiStates opts = Some (map (sat m (rightSide (unwrapped f))) [0..<numberOfStates m])"
  using preserveSingleFormula_applies[OF Options_default_fields assms, of m]
    applies_sides_propositional[OF assms]
  by (auto simp: Options_formula_def Options_formulas_single check_def)

theorem measure_driven_phi_psi_are_satisfaction_sets_witness:
  "\<exists>opts. Options_formula chainModel eventuallyA = Some opts \<and>
          measureDrivenInitialPartition opts \<and>
          phiStates opts = Some [True, True] \<and> psiStates opts = Some [False, True]"
proof -
  have a: "untilOrEventuallyWithPropositionalSides (unwrapped eventuallyA)"
    by (simp add: eventuallyA_def unwrapped_def untilOrEventuallyWithPropositionalSides_def)
  have n: "[0..<numberOfStates chainModel] = [0, 1]"
    by (simp add: chainModel_def upt_rec)
  have l: "map (sat chainModel (leftSide (unwrapped eventuallyA))) [0..<numberOfStates chainModel]
             = [True, True]"
    by code_simp
  have r: "map (sat chainModel (rightSide (unwrapped eventuallyA))) [0..<numberOfStates chainModel]
             = [False, True]"
    by code_simp
  show ?thesis
    using measure_driven_phi_psi_are_satisfaction_sets[OF a, of chainModel]
    unfolding l r by blast
qed

text \<open>
  Claim C4, as stated, fails: the phi and psi states are not the states with probability 0 and 1.
  In the chain of two states every state reaches the label \<open>a\<close> with probability 1: no state
  has probability 0 and both have probability 1, but the phi states are both states and the psi
  states are state 1 alone.
\<close>

theorem phi_psi_are_not_probability01_states:
  "Options_formula chainModel eventuallyA =
     Some \<lparr> measureDrivenInitialPartition = True, phiStates = Some [True, True],
            psiStates = Some [False, True], optimalityType = None,
            respectedAtomicPropositions = Some {''a''}, buildQuotient = True,
            keepRewards = False, otype = Strong, bounded = False \<rparr> \<and>
   performProb01 chainModel [True, True] [False, True] = ([False, False], [True, True])"
proof -
  have n: "[0..<numberOfStates chainModel] = [0, 1]"
    by (simp add: chainModel_def upt_rec)
  have 1: "Options_formula chainModel eventuallyA =
     Some \<lparr> measureDrivenInitialPartition = True, phiStates = Some [True, True],
            psiStates = Some [False, True], optimalityType = None,
            respectedAtomicPropositions = Some {''a''}, buildQuotient = True,
            keepRewards = False, otype = Strong, bounded = False \<rparr>"
    by code_simp
  have 2: "performProb01 chainModel [True, True] [False, True] = ([False, False], [True, True])"
    by code_simp
  show ?thesis using 1 2 by simp
qed

text \<open>
  Claim C6, as stated, fails: for a bounded operator over a next formula the inferred direction
  does not survive the configuration; the resulting options have no optimality type.
\<close>

theorem inferred_direction_is_reset:
  "Options_formula chainModel boundedNextA =
     Some \<lparr> measureDrivenInitialPartition = False, phiStates = None, psiStates = None,
            optimalityType = None, respectedAtomicPropositions = Some {''a''},
            buildQuotient = True, keepRewards = False, otype = Strong, bounded = True \<rparr>"
  by code_simp

text \<open>
  Claim C6, as it holds. When the formula is a probability or reward operator over an until or
  eventually formula with propositional sides, the options get the explicit optimality type of
  the operator if it has one; otherwise, if the operator has a bound, they get Maximize for the
  comparisons \<open><\<close> and \<open>\<le>\<close> and Minimize for \<open>>\<close> and \<open>\<ge>\<close>. When the operator is over any other
  subformula, the options have no optimality type.
\<close>

theorem optimalityType_inferred_for_measure_driven:
  assumes "operatorParts f = Some (ot, bnd)"
  shows "\<exists>opts. Options_formula m f = Some opts \<and> Options_formulas m [f] = Some opts \<and>
           (untilOrEventuallyWithPropositionalSides (unwrapped f) \<longrightarrow>
              (\<forall>d. ot = Some d \<longrightarrow> optimalityType opts = Some d) \<and>
              (\<forall>c t. ot = None \<and> bnd = Some (c, t) \<and> (c = Less \<or> c = LessEqual) \<longrightarrow>
                 optimalityType opts = Some Maximize) \<and>
              (\<forall>c t. ot = None \<and> bnd = Some (c, t) \<and> (c = Greater \<or> c = GreaterEqual) \<longrightarrow>
                 optimalityType opts = Some Minimize)) \<and>
           (\<not> untilOrEventuallyWithPropositionalSides (unwrapped f) \<longrightarrow>
              optimalityType opts = None)"
proof (cases "untilOrEventuallyWithPropositionalSides (unwrapped f)")
  case True
  show ?thesis
    using preserveSingleFormula_applies[OF Options_default_fields True, of m] assms True
    by (auto simp: Options_formula_def Options_formulas_single inferredDirection_def)
next
  case False
  show ?thesis
    using preserveSingleFormula_not_applies[OF Options_default_fields(1) False, of m] False
    by (auto simp: Options_formula_def Options_formulas_single)
qed

theorem optimalityType_inferred_for_measure_driven_witness:
  "(\<exists>opts. Options_formula chainModel boundedUntilAB = Some opts \<and>
           optimalityType opts = Some Maximize) \<and>
   (\<exists>opts. Options_formula chainModel boundedNextA = Some opts \<and>
           optimalityType opts = None)"
proof -
  have p: "operatorParts boundedUntilAB = Some (None, Some (LessEqual, 1 / 2))"
    by (simp add: boundedUntilAB_def operatorParts_def)
  have a: "untilOrEventuallyWithPropositionalSides (unwrapped boundedUntilAB)"
    by (simp add: boundedUntilAB_def unwrapped_def untilOrEventuallyWithPropositionalSides_def)
  have q: "operatorParts boundedNextA = Some (None, Some (Less, 1 / 2))"
    by (simp add: boundedNextA_def operatorParts_def)
  have b: "\<not> untilOrEventuallyWithPropositionalSides (unwrapped boundedNextA)"
    by (simp add: boundedNextA_def unwrapped_def untilOrEventuallyWithPropositionalSides_def)
  have 1: "\<exists>opts. Options_formula chainModel boundedUntilAB = Some opts \<and>
           optimalityType opts = Some Maximize"
    using optimalityType_inferred_for_measure_driven[OF p, of chainModel] a by blast
  have 2: "\<exists>opts. Options_formula chainModel boundedNextA = Some opts \<and>
           optimalityType opts = None"
    using optimalityType_inferred_for_measure_driven[OF q, of chainModel] b by blast
  show ?thesis using 1 2 by (rule conjI)
qed

text \<open>
  Claim C7. Options constructed from more than one formula keep rewards iff some formula contains
  a reward operator, are bounded iff some formula contains a bounded-until or next formula,
  respect the union of the labels and expressions of all formulas, and have the measure-driven
  initial partition disabled, with no phi and psi states.
\<close>

theorem options_of_many_formulas:
  assumes "1 < length fs"
  shows "\<exists>opts. Options_formulas m fs = Some opts \<and>
           keepRewards opts = (\<exists>f\<in>set fs. containsRewardOperator f) \<and>
           bounded opts = (\<exists>f\<in>set fs. containsBoundedUntilFormula f \<or> containsNextFormula f) \<and>
           respectedAtomicPropositions opts =
             Some (\<Union>f\<in>set fs. set (getAtomicLabelFormulas f) \<union> set (getAtomicExpressionFormulas f)) \<and>
           \<not> measureDrivenInitialPartition opts \<and> phiStates opts = None \<and> psiStates opts = None"
proof -
  from assms have ne: "fs \<noteq> []" and n1: "length fs \<noteq> 1" by auto
  have e: "Options_formulas m fs =
             Some (foldl (\<lambda>opts formula. preserveFormula m formula opts) Options_default fs)"
    using ne n1 by (simp add: Options_formulas_def)
  show ?thesis
    unfolding e
    using foldl_preserveFormula(5)[OF ne, of m Options_default]
    by (simp add: foldl_preserveFormula(1,2) foldl_preserveFormula(4)[OF ne] Options_default_def)
qed

theorem options_of_many_formulas_witness:
  "\<exists>opts. Options_formulas chainModel [eventuallyA, rewardNextX] = Some opts \<and>
          keepRewards opts \<and> bounded opts \<and>
          respectedAtomicPropositions opts = Some {''a'', ''x > 1''} \<and>
          \<not> measureDrivenInitialPartition opts \<and> phiStates opts = None \<and> psiStates opts = None"
proof -
  have l: "1 < length [eventuallyA, rewardNextX]" by simp
  have k: "(\<exists>f\<in>set [eventuallyA, rewardNextX]. containsRewardOperator f) = True"
    by (simp add: rewardNextX_def)
  have b: "(\<exists>f\<in>set [eventuallyA, rewardNextX].
              containsBoundedUntilFormula f \<or> containsNextFormula f) = True"
    by (simp add: rewardNextX_def)
  have r: "(\<Union>f\<in>set [eventuallyA, rewardNextX].
              set (getAtomicLabelFormulas f) \<union> set (getAtomicExpressionFormulas f)) = {''a'', ''x > 1''}"
    by (auto simp: rewardNextX_def eventuallyA_def)
  show ?thesis
    using options_of_many_formulas[OF l, of chainModel] unfolding k b r by simp
qed

text \<open>
  Claim C10. After the options are configured from a formula or a list of formulas, an optimality
  type is present only if the measure-driven initial partition is enabled; when the formula below
  the leading operator is not an until or eventually formula with propositional sides, the
  optimality type is absent, whatever the operator carried.
\<close>

theorem optimalityType_only_with_measure_driven:
  "(\<exists>opts. Options_formula m f = Some opts \<and>
      (optimalityType opts \<noteq> None \<longrightarrow> measureDrivenInitialPartition opts) \<and>
      (\<not> untilOrEventuallyWithPropositionalSides (unwrapped f) \<longrightarrow>
         optimalityType opts = None \<and> \<not> measureDrivenInitialPartition opts)) \<and>
   (\<exists>opts. Options_formulas m fs = Some opts \<and>
      (optimalityType opts \<noteq> None \<longrightarrow> measureDrivenInitialPartition opts))"
proof -
  have single: "\<exists>opts. Options_formula m g = Some opts \<and>
      (optimalityType opts \<noteq> None \<longrightarrow> measureDrivenInitialPartition opts) \<and>
      (\<not> untilOrEventuallyWithPropositionalSides (unwrapped g) \<longrightarrow>
         optimalityType opts = None \<and> \<not> measureDrivenInitialPartition opts)" for g
  proof (cases "untilOrEventuallyWithPropositionalSides (unwrapped g)")
    case True
    then show ?thesis
      using preserveSingleFormula_applies[OF Options_default_fields True, of m]
      by (auto simp: Options_formula_def)
  next
    case False
    then show ?thesis
      using preserveSingleFormula_not_applies[OF Options_default_fields(1) False, of m]
      by (auto simp: Options_formula_def)
  qed
  have many: "\<exists>opts. Options_formulas m fs = Some opts \<and>
      (optimalityType opts \<noteq> None \<longrightarrow> measureDrivenInitialPartition opts)"
  proof (cases "length fs = 1")
    case True
    then obtain g where "fs = [g]" by (cases fs) auto
    then show ?thesis using single[of g] by (auto simp: Options_formulas_single)
  next
    case False
    then show ?thesis
      by (simp add: Options_formulas_def foldl_preserveFormula(3) Options_default_def)
  qed
  show ?thesis using single[of f] many by blast
qed

theorem optimalityType_only_with_measure_driven_witness:
  "(\<exists>opts. Options_formula chainModel boundedNextA = Some opts \<and>
      optimalityType opts = None \<and> \<not> measureDrivenInitialPartition opts) \<and>
   (\<exists>opts. Options_formulas chainModel [boundedUntilAB] = Some opts \<and>
      optimalityType opts = Some Maximize \<and> measureDrivenInitialPartition opts)"
proof -
  have n: "\<not> untilOrEventuallyWithPropositionalSides (unwrapped boundedNextA)"
    by (simp add: boundedNextA_def unwrapped_def untilOrEventuallyWithPropositionalSides_def)
  have o: "map_option optimalityType (Options_formulas chainModel [boundedUntilAB]) = Some (Some Maximize)"
    by code_simp
  show ?thesis
    using optimalityType_only_with_measure_driven[of chainModel boundedNextA "[boundedUntilAB]"] n o
    by auto
qed

section \<open>Properties of the decomposition\<close>

lemma init_Inr_options:
  assumes "BisimulationDecomposition_init m bt opts = Inr d"
  shows "model d = m" "quotient_m d = None"
    "options d = (if respectedAtomicPropositions opts = None
                  then opts\<lparr>respectedAtomicPropositions := Some (getLabels m)\<rparr> else opts)"
    "backwardTransitions d = bt"
  using assms by (auto simp: BisimulationDecomposition_init_def split: if_splits)

lemma splitRewards_fields:
  assumes "splitInitialPartitionBasedOnStateRewards d = Inr d1"
  shows "model d1 = model d \<and> options d1 = options d \<and> quotient_m d1 = quotient_m d \<and>
         backwardTransitions d1 = backwardTransitions d"
  using assms by (auto simp: splitInitialPartitionBasedOnStateRewards_def split: option.splits)

lemma initializeLabelBasedPartition_fields:
  assumes "initializeLabelBasedPartition d = Inr d1"
  shows "model d1 = model d \<and> options d1 = options d \<and> quotient_m d1 = quotient_m d \<and>
         backwardTransitions d1 = backwardTransitions d"
proof -
  from assms obtain aps where "respectedAtomicPropositions (options d) = Some aps"
    by (auto simp: initializeLabelBasedPartition_def split: option.splits)
  with assms obtain P where
    "splitInitialPartitionBasedOnStateRewards (d\<lparr>partition_m := P\<rparr>) = Inr d1 \<or>
     d1 = d\<lparr>partition_m := P\<rparr>"
    by (auto simp: initializeLabelBasedPartition_def Let_def split: if_splits)
  then show ?thesis
    using splitRewards_fields[of "d\<lparr>partition_m := P\<rparr>" d1] by auto
qed

lemma initializeMeasureDrivenPartition_fields:
  assumes "initializeMeasureDrivenPartition d = Inr d1"
  shows "model d1 = model d \<and> options d1 = options d \<and> quotient_m d1 = quotient_m d \<and>
         backwardTransitions d1 = backwardTransitions d"
proof -
  from assms obtain phi psi where
    "phiStates (options d) = Some phi" "psiStates (options d) = Some psi"
    by (auto simp: initializeMeasureDrivenPartition_def split: option.splits)
  with assms obtain P where
    "splitInitialPartitionBasedOnStateRewards (d\<lparr>partition_m := P\<rparr>) = Inr d1 \<or>
     d1 = d\<lparr>partition_m := P\<rparr>"
    by (auto simp: initializeMeasureDrivenPartition_def Let_def split: if_splits)
  then show ?thesis
    using splitRewards_fields[of "d\<lparr>partition_m := P\<rparr>" d1] by auto
qed

lemma initializeInitialPartition_fields:
  assumes "initializeInitialPartition d = Inr d1"
  shows "model d1 = model d" "options d1 = options d" "quotient_m d1 = quotient_m d"
    "backwardTransitions d1 = backwardTransitions d"
  using assms initializeLabelBasedPartition_fields[of d d1]
    initializeMeasureDrivenPartition_fields[of d d1]
  by (auto simp: initializeInitialPartition_def split: if_splits)

lemma compute_quotient:
  assumes "computeBisimulationDecomposition d = Inr d'"
  shows "options d' = options d"
    "quotient_m d' = (if buildQuotient (options d) then quotient_m d' else quotient_m d)"
    "buildQuotient (options d) \<Longrightarrow> quotient_m d' \<noteq> None"
proof -
  from assms obtain d1 where i: "initializeInitialPartition d = Inr d1"
    by (auto simp: computeBisimulationDecomposition_def split: sum.splits)
  note f = initializeInitialPartition_fields[OF i]
  let ?d3 = "extractDecompositionBlocks (performPartitionRefinement d1)"
  have o3: "options ?d3 = options d" and q3: "quotient_m ?d3 = quotient_m d"
    using f by (simp_all add: extractDecompositionBlocks_def performPartitionRefinement_def)
  have d': "d' = (if buildQuotient (options ?d3) then buildQuotient_m ?d3 else ?d3)"
    using assms i by (simp add: computeBisimulationDecomposition_def Let_def)
  show "options d' = options d"
    using d' o3 by (simp add: buildQuotient_m_def Let_def)
  show "quotient_m d' = (if buildQuotient (options d) then quotient_m d' else quotient_m d)"
    using d' o3 q3 by simp
  show "buildQuotient (options d) \<Longrightarrow> quotient_m d' \<noteq> None"
    using d' o3 by (simp add: buildQuotient_m_def Let_def)
qed

text \<open>
  Claim C3. On a decomposition whose quotient has not been built, because the decomposition has
  not been computed or was computed with \<open>buildQuotient\<close> false, \<open>getQuotient\<close> fails with an
  exception instead of returning a model; once the quotient has been built, \<open>getQuotient\<close>
  returns it.
\<close>

theorem getQuotient_fails_unless_built:
  "(quotient_m d = None \<longrightarrow> getQuotient d = Inl IllegalFunctionCallException) \<and>
   (quotient_m d = Some q \<longrightarrow> getQuotient d = Inr q) \<and>
   (BisimulationDecomposition_init m bt opts = Inr d0 \<longrightarrow>
      getQuotient d0 = Inl IllegalFunctionCallException) \<and>
   (BisimulationDecomposition_init m bt opts = Inr d0 \<and> \<not> buildQuotient opts \<and>
    computeBisimulationDecomposition d0 = Inr d1 \<longrightarrow>
      getQuotient d1 = Inl IllegalFunctionCallException) \<and>
   (buildQuotient (options d) \<and> computeBisimulationDecomposition d = Inr d2 \<longrightarrow>
      (\<exists>q'. quotient_m d2 = Some q' \<and> getQuotient d2 = Inr q'))"
proof (intro conjI impI)
  show "quotient_m d = None \<Longrightarrow> getQuotient d = Inl IllegalFunctionCallException"
    by (simp add: getQuotient_def)
  show "quotient_m d = Some q \<Longrightarrow> getQuotient d = Inr q"
    by (simp add: getQuotient_def)
  show "BisimulationDecomposition_init m bt opts = Inr d0 \<Longrightarrow>
        getQuotient d0 = Inl IllegalFunctionCallException"
    using init_Inr_options(2)[of m bt opts d0] by (simp add: getQuotient_def)
next
  assume a: "BisimulationDecomposition_init m bt opts = Inr d0 \<and> \<not> buildQuotient opts \<and>
    computeBisimulationDecomposition d0 = Inr d1"
  then have "\<not> buildQuotient (options d0)" "quotient_m d0 = None"
    using init_Inr_options[of m bt opts d0] by (auto split: if_splits)
  then have "quotient_m d1 = None"
    using compute_quotient(2)[of d0 d1] a by simp
  then show "getQuotient d1 = Inl IllegalFunctionCallException"
    by (simp add: getQuotient_def)
next
  assume a: "buildQuotient (options d) \<and> computeBisimulationDecomposition d = Inr d2"
  then have "quotient_m d2 \<noteq> None" using compute_quotient(3)[of d d2] by simp
  then show "\<exists>q'. quotient_m d2 = Some q' \<and> getQuotient d2 = Inr q'"
    by (auto simp: getQuotient_def)
qed

theorem getQuotient_fails_unless_built_witness:
  "getQuotient freshDecomposition = Inl IllegalFunctionCallException \<and>
   (\<exists>d q. computeBisimulationDecomposition freshDecomposition = Inr d \<and>
      quotient_m d = Some q \<and> getQuotient d = Inr q)"
proof -
  have i: "BisimulationDecomposition_init_model chainModel Options_default = Inr freshDecomposition"
    by code_simp
  then have i': "BisimulationDecomposition_init chainModel (getBackwardTransitions chainModel)
      Options_default = Inr freshDecomposition"
    by (simp add: BisimulationDecomposition_init_model_def)
  have b: "buildQuotient (options freshDecomposition)"
    by (simp add: freshDecomposition_def Options_default_def)
  have "(case computeBisimulationDecomposition freshDecomposition of Inl e \<Rightarrow> False | Inr d \<Rightarrow> True)"
    by code_simp
  then obtain d where c: "computeBisimulationDecomposition freshDecomposition = Inr d"
    by (cases "computeBisimulationDecomposition freshDecomposition") auto
  show ?thesis
    using getQuotient_fails_unless_built[where d = freshDecomposition and m = chainModel
        and bt = "getBackwardTransitions chainModel" and opts = Options_default
        and ?d0.0 = freshDecomposition and ?d2.0 = d] i' b c
    by blast
qed

text \<open>
  Claim C2. Each incompatible combination of options makes the decomposition fail with an
  exception and no result: weak bisimulation with bounded properties, kept rewards with more
  than one reward model, and kept rewards with transition rewards fail in the constructor; a
  measure-driven initial partition without phi or psi states fails where the initial partition
  is chosen, before the refinement.
\<close>

theorem configuration_errors_abort:
  "(otype opts = Weak \<and> bounded opts \<longrightarrow>
      BisimulationDecomposition_init m bt opts = Inl IllegalFunctionCallException \<and>
      decompose m bt opts = Inl IllegalFunctionCallException) \<and>
   (keepRewards opts \<and> 1 < length (rewardModels m) \<longrightarrow>
      BisimulationDecomposition_init m bt opts = Inl IllegalFunctionCallException \<and>
      decompose m bt opts = Inl IllegalFunctionCallException) \<and>
   (keepRewards opts \<and> rewardModels m = [(name, r)] \<and> hasTransitionRewards r \<longrightarrow>
      BisimulationDecomposition_init m bt opts = Inl IllegalFunctionCallException \<and>
      decompose m bt opts = Inl IllegalFunctionCallException) \<and>
   (measureDrivenInitialPartition (options d) \<and>
    (phiStates (options d) = None \<or> psiStates (options d) = None) \<longrightarrow>
      initializeInitialPartition d = Inl InvalidOptionException \<and>
      computeBisimulationDecomposition d = Inl InvalidOptionException) \<and>
   (measureDrivenInitialPartition opts \<and> (phiStates opts = None \<or> psiStates opts = None) \<longrightarrow>
      decompose m bt opts = Inl IllegalFunctionCallException \<or>
      decompose m bt opts = Inl InvalidOptionException)"
proof (intro conjI impI)
  assume "otype opts = Weak \<and> bounded opts"
  then have "BisimulationDecomposition_init m bt opts = Inl IllegalFunctionCallException"
    by (simp add: BisimulationDecomposition_init_def)
  then show "BisimulationDecomposition_init m bt opts = Inl IllegalFunctionCallException"
    "decompose m bt opts = Inl IllegalFunctionCallException"
    by (simp_all add: decompose_def)
next
  assume "keepRewards opts \<and> 1 < length (rewardModels m)"
  then have "BisimulationDecomposition_init m bt opts = Inl IllegalFunctionCallException"
    by (auto simp: BisimulationDecomposition_init_def hasRewardModel_def hasUniqueRewardModel_def)
  then show "BisimulationDecomposition_init m bt opts = Inl IllegalFunctionCallException"
    "decompose m bt opts = Inl IllegalFunctionCallException"
    by (simp_all add: decompose_def)
next
  assume "keepRewards opts \<and> rewardModels m = [(name, r)] \<and> hasTransitionRewards r"
  then have "BisimulationDecomposition_init m bt opts = Inl IllegalFunctionCallException"
    by (auto simp: BisimulationDecomposition_init_def hasRewardModel_def hasUniqueRewardModel_def
        getUniqueRewardModel_def hasOnlyStateRewards_def)
  then show "BisimulationDecomposition_init m bt opts = Inl IllegalFunctionCallException"
    "decompose m bt opts = Inl IllegalFunctionCallException"
    by (simp_all add: decompose_def)
next
  assume "measureDrivenInitialPartition (options d) \<and>
    (phiStates (options d) = None \<or> psiStates (options d) = None)"
  then have "initializeInitialPartition d = Inl InvalidOptionException"
    by (auto simp: initializeInitialPartition_def)
  then show "initializeInitialPartition d = Inl InvalidOptionException"
    "computeBisimulationDecomposition d = Inl InvalidOptionException"
    by (simp_all add: computeBisimulationDecomposition_def)
next
  assume a: "measureDrivenInitialPartition opts \<and> (phiStates opts = None \<or> psiStates opts = None)"
  show "decompose m bt opts = Inl IllegalFunctionCallException \<or>
      decompose m bt opts = Inl InvalidOptionException"
  proof (cases "BisimulationDecomposition_init m bt opts")
    case (Inl e)
    then have "e = IllegalFunctionCallException"
      by (auto simp: BisimulationDecomposition_init_def split: if_splits)
    with Inl show ?thesis by (simp add: decompose_def)
  next
    case (Inr d0)
    have "measureDrivenInitialPartition (options d0) \<and>
      (phiStates (options d0) = None \<or> psiStates (options d0) = None)"
      using a init_Inr_options(3)[OF Inr] by (auto split: if_splits)
    then have "initializeInitialPartition d0 = Inl InvalidOptionException"
      by (auto simp: initializeInitialPartition_def)
    with Inr show ?thesis by (simp add: decompose_def computeBisimulationDecomposition_def)
  qed
qed

theorem configuration_errors_abort_witness:
  "decompose chainModel [] weakBounded = Inl IllegalFunctionCallException \<and>
   decompose twoRewardsModel [] keepingRewards = Inl IllegalFunctionCallException \<and>
   decompose transitionRewardsModel [] keepingRewards = Inl IllegalFunctionCallException \<and>
   computeBisimulationDecomposition measureDrivenWithoutStates = Inl InvalidOptionException"
proof -
  have 1: "otype weakBounded = Weak \<and> bounded weakBounded"
    by (simp add: weakBounded_def)
  have 2: "keepRewards keepingRewards \<and> 1 < length (rewardModels twoRewardsModel)"
    by (simp add: keepingRewards_def twoRewardsModel_def)
  have 3: "keepRewards keepingRewards \<and>
      rewardModels transitionRewardsModel =
        [(''steps'', \<lparr> stateRewardVector = [1, 0], hasTransitionRewards = True \<rparr>)] \<and>
      hasTransitionRewards \<lparr> stateRewardVector = [1, 0], hasTransitionRewards = True \<rparr>"
    by (simp add: keepingRewards_def transitionRewardsModel_def)
  have 4: "measureDrivenInitialPartition (options measureDrivenWithoutStates) \<and>
      (phiStates (options measureDrivenWithoutStates) = None \<or>
       psiStates (options measureDrivenWithoutStates) = None)"
    by (simp add: measureDrivenWithoutStates_def Options_default_def)
  show ?thesis
    using configuration_errors_abort[where opts = weakBounded and m = chainModel and bt = "[]"] 1
      configuration_errors_abort[where opts = keepingRewards and m = twoRewardsModel and bt = "[]"] 2
      configuration_errors_abort[where opts = keepingRewards and m = transitionRewardsModel
        and bt = "[]" and name = "''steps''"
        and r = "\<lparr> stateRewardVector = [1, 0], hasTransitionRewards = True \<rparr>"] 3
      configuration_errors_abort[where d = measureDrivenWithoutStates] 4
    by blast
qed

section \<open>Properties of the refinement loop\<close>

lemma nextSplitter_smallest:
  assumes "splitterVector \<noteq> []" "nextSplitter P splitterVector = (h, rest)"
  shows "h \<in> set splitterVector"
    "\<forall>h'\<in>set splitterVector. getNumberOfStates P h \<le> getNumberOfStates P h'"
    "mset splitterVector = add_mset h (mset rest)"
proof -
  let ?xs = "sort_key (getNumberOfStates P) splitterVector"
  have "length ?xs = length splitterVector" by simp
  then have ne: "?xs \<noteq> []" using assms(1) by (cases ?xs) auto
  then obtain y ys where xs: "?xs = y # ys" by (cases ?xs) auto
  have h: "h = y" and rest: "rest = rev ys"
    using assms(2) by (simp_all add: nextSplitter_def Let_def xs)
  have m: "mset ?xs = mset splitterVector" by simp
  have s: "set ?xs = set splitterVector" by simp
  show "h \<in> set splitterVector" using s xs h by auto
  have "sorted (map (getNumberOfStates P) ?xs)" by (rule sorted_sort_key)
  then have "\<forall>z\<in>set ys. getNumberOfStates P y \<le> getNumberOfStates P z"
    by (simp add: xs)
  then show "\<forall>h'\<in>set splitterVector. getNumberOfStates P h \<le> getNumberOfStates P h'"
    using s xs h by auto
  show "mset splitterVector = add_mset h (mset rest)"
    using m xs h rest by simp
qed

lemma flag_update_fields:
  "handle (if handle b = h then b\<lparr>splitter := v\<rparr> else b) = handle b"
  "states (if handle b = h then b\<lparr>splitter := v\<rparr> else b) = states b"
  "splitter (if handle b = h then b\<lparr>splitter := v\<rparr> else b) = (if handle b = h then v else splitter b)"
  "absorbing (if handle b = h then b\<lparr>splitter := v\<rparr> else b) = absorbing b"
  by simp_all

lemma setSplitter_blocks:
  "getBlocks (setSplitter h v P) = map (\<lambda>b. if handle b = h then b\<lparr>splitter := v\<rparr> else b) (getBlocks P)"
  by (simp add: setSplitter_def)

lemma setSplitter_cleared:
  "\<forall>b\<in>set (getBlocks (setSplitter h False P)). handle b = h \<longrightarrow> \<not> splitter b"
proof (intro ballI impI)
  fix b assume b: "b \<in> set (getBlocks (setSplitter h False P))" and h: "handle b = h"
  from b obtain c where bc: "b = (if handle c = h then c\<lparr>splitter := False\<rparr> else c)"
    unfolding setSplitter_blocks set_map by (rule imageE)
  have "handle c = h" using h unfolding bc flag_update_fields(1) .
  then show "\<not> splitter b" unfolding bc by simp
qed


lemma refinementLoop_iterates:
  "\<exists>n. refinementLoop t bt st = (refinementIteration t bt ^^ n) st \<and>
        snd ((refinementIteration t bt ^^ n) st) = [] \<and>
        (\<forall>k<n. snd ((refinementIteration t bt ^^ k) st) \<noteq> [])"
proof (induction t bt st rule: refinementLoop.induct)
  case (1 t bt st)
  show ?case
  proof (cases "snd st = []")
    case True
    have "refinementLoop t bt st = (refinementIteration t bt ^^ 0) st"
      by (simp add: refinementLoop_done[OF True])
    moreover have "snd ((refinementIteration t bt ^^ 0) st) = []" using True by simp
    moreover have "\<forall>k<0::nat. snd ((refinementIteration t bt ^^ k) st) \<noteq> []" by simp
    ultimately show ?thesis by blast
  next
    case False
    from "1.IH"[OF False] obtain n where
      l: "refinementLoop t bt (refinementIteration t bt st) =
            (refinementIteration t bt ^^ n) (refinementIteration t bt st)"
      and e: "snd ((refinementIteration t bt ^^ n) (refinementIteration t bt st)) = []"
      and p: "\<forall>k<n. snd ((refinementIteration t bt ^^ k) (refinementIteration t bt st)) \<noteq> []"
      by blast
    have sw: "(refinementIteration t bt ^^ Suc k) st =
        (refinementIteration t bt ^^ k) (refinementIteration t bt st)" for k
      by (simp only: funpow_Suc_right o_apply)
    have 1: "refinementLoop t bt st = (refinementIteration t bt ^^ Suc n) st"
      unfolding refinementLoop_step[OF False] sw by (rule l)
    have 2: "snd ((refinementIteration t bt ^^ Suc n) st) = []"
      unfolding sw by (rule e)
    have 3: "\<forall>k<Suc n. snd ((refinementIteration t bt ^^ k) st) \<noteq> []"
    proof (intro allI impI)
      fix k assume k: "k < Suc n"
      show "snd ((refinementIteration t bt ^^ k) st) \<noteq> []"
      proof (cases k)
        case 0
        then show ?thesis using False by simp
      next
        case (Suc j)
        with k have "j < n" by simp
        with p have "snd ((refinementIteration t bt ^^ j) (refinementIteration t bt st)) \<noteq> []"
          by blast
        then show ?thesis unfolding Suc sw .
      qed
    qed
    from 1 2 3 show ?thesis by blast
  qed
qed

lemma initialRefinementState_flags:
  "snd (initialRefinementState P) = map handle (getBlocks P) \<and>
   map states (getBlocks (fst (initialRefinementState P))) = map states (getBlocks P) \<and>
   (\<forall>b\<in>set (getBlocks (fst (initialRefinementState P))). splitter b)"
  by (simp add: initialRefinementState_def Let_def comp_def)

text \<open>
  Claim C8. In an iteration of the refinement loop the splitter taken out of the pending vector
  has the smallest number of states among the pending splitters, the other splitters stay
  pending, and the flag of the splitter is cleared in the partition that is then refined against
  it. The loop does nothing more and nothing less than such iterations for as long as a splitter
  is pending: its result is the state after some number \<open>n\<close> of iterations, no splitter is
  pending in that state, and a splitter is pending in the state after every smaller number of
  iterations. \<^verbatim>\<open>performPartitionRefinement\<close> runs this loop from the state in which every block
  of the partition is flagged and pending, and keeps the partition it ends with.
\<close>

theorem smallest_pending_splitter_is_taken:
  assumes "splitterVector \<noteq> []" and "nextSplitter P splitterVector = (h, rest)"
  shows "h \<in> set splitterVector \<and>
         (\<forall>h'\<in>set splitterVector. getNumberOfStates P h \<le> getNumberOfStates P h') \<and>
         mset splitterVector = add_mset h (mset rest) \<and>
         (\<forall>b\<in>set (getBlocks (setSplitter h False P)). handle b = h \<longrightarrow> \<not> splitter b) \<and>
         refinementIteration t bt (P, splitterVector) =
           refinePartitionBasedOnSplitter t bt h rest (setSplitter h False P) \<and>
         (\<exists>n. 0 < n \<and>
              refinementLoop t bt (P, splitterVector) =
                (refinementIteration t bt ^^ n) (P, splitterVector) \<and>
              snd ((refinementIteration t bt ^^ n) (P, splitterVector)) = [] \<and>
              (\<forall>k<n. snd ((refinementIteration t bt ^^ k) (P, splitterVector)) \<noteq> [])) \<and>
         refinementLoop t bt (P, []) = (P, []) \<and>
         snd (initialRefinementState (partition_m d)) = map handle (getBlocks (partition_m d)) \<and>
         map states (getBlocks (fst (initialRefinementState (partition_m d)))) =
           map states (getBlocks (partition_m d)) \<and>
         (\<forall>b\<in>set (getBlocks (fst (initialRefinementState (partition_m d)))). splitter b) \<and>
         (\<exists>n. partition_m (performPartitionRefinement d) =
                fst ((refinementIteration (otype (options d)) (backwardTransitions d) ^^ n)
                       (initialRefinementState (partition_m d))) \<and>
              snd ((refinementIteration (otype (options d)) (backwardTransitions d) ^^ n)
                     (initialRefinementState (partition_m d))) = [] \<and>
              (\<forall>k<n. snd ((refinementIteration (otype (options d)) (backwardTransitions d) ^^ k)
                              (initialRefinementState (partition_m d))) \<noteq> []))"
proof -
  have it: "refinementIteration t bt (P, splitterVector) =
           refinePartitionBasedOnSplitter t bt h rest (setSplitter h False P)"
    using assms(2) by (simp add: refinementIteration_def)
  from refinementLoop_iterates[of t bt "(P, splitterVector)"] obtain n where
    n: "refinementLoop t bt (P, splitterVector) =
          (refinementIteration t bt ^^ n) (P, splitterVector)"
       "snd ((refinementIteration t bt ^^ n) (P, splitterVector)) = []"
       "\<forall>k<n. snd ((refinementIteration t bt ^^ k) (P, splitterVector)) \<noteq> []"
    by blast
  have "n \<noteq> 0"
  proof
    assume "n = 0"
    with n(2) have "splitterVector = []" by simp
    with assms(1) show False by simp
  qed
  then have pos: "0 < n" by simp
  have loop: "\<exists>n. 0 < n \<and>
              refinementLoop t bt (P, splitterVector) =
                (refinementIteration t bt ^^ n) (P, splitterVector) \<and>
              snd ((refinementIteration t bt ^^ n) (P, splitterVector)) = [] \<and>
              (\<forall>k<n. snd ((refinementIteration t bt ^^ k) (P, splitterVector)) \<noteq> [])"
    using pos n by blast
  have base: "refinementLoop t bt (P, []) = (P, [])"
    by (rule refinementLoop_done) simp
  let ?t = "otype (options d)" and ?bt = "backwardTransitions d"
  let ?st = "initialRefinementState (partition_m d)"
  from refinementLoop_iterates[of ?t ?bt ?st] obtain j where
    j: "refinementLoop ?t ?bt ?st = (refinementIteration ?t ?bt ^^ j) ?st"
       "snd ((refinementIteration ?t ?bt ^^ j) ?st) = []"
       "\<forall>k<j. snd ((refinementIteration ?t ?bt ^^ k) ?st) \<noteq> []"
    by blast
  have "partition_m (performPartitionRefinement d) = fst (refinementLoop ?t ?bt ?st)"
    by (simp add: performPartitionRefinement_def)
  then have "partition_m (performPartitionRefinement d) =
      fst ((refinementIteration ?t ?bt ^^ j) ?st)"
    unfolding j(1) .
  with j(2,3) have perform: "\<exists>n. partition_m (performPartitionRefinement d) =
                fst ((refinementIteration ?t ?bt ^^ n) ?st) \<and>
              snd ((refinementIteration ?t ?bt ^^ n) ?st) = [] \<and>
              (\<forall>k<n. snd ((refinementIteration ?t ?bt ^^ k) ?st) \<noteq> [])"
    by blast
  note sel = nextSplitter_smallest[OF assms]
  note ini = initialRefinementState_flags[of "partition_m d"]
  show ?thesis
    apply (intro conjI)
              apply (rule sel(1))
             apply (rule sel(2))
            apply (rule sel(3))
           apply (rule setSplitter_cleared)
          apply (rule it)
         apply (rule loop)
        apply (rule base)
       apply (rule conjunct1[OF ini])
      apply (rule conjunct1[OF conjunct2[OF ini]])
     apply (rule conjunct2[OF conjunct2[OF ini]])
    apply (rule perform)
    done
qed

theorem smallest_pending_splitter_is_taken_witness:
  "nextSplitter twoBlocks [0, 1] = (1, [0]) \<and>
   getNumberOfStates twoBlocks 1 = 1 \<and> getNumberOfStates twoBlocks 0 = 2 \<and>
   getBlocks (setSplitter 1 False twoBlocks) =
     [\<lparr> handle = 0, states = [0, 1], splitter = True, absorbing = False,
        representativeState = None \<rparr>,
      \<lparr> handle = 1, states = [2], splitter = False, absorbing = False,
        representativeState = None \<rparr>] \<and>
   snd (refinementLoop Strong (getBackwardTransitions lazyModel) (twoBlocks, [0, 1])) = [] \<and>
   map states (getBlocks (fst (refinementLoop Strong (getBackwardTransitions lazyModel)
                                 (twoBlocks, [0, 1])))) = [[0], [1], [2]]"
proof -
  have ne: "[0, 1] \<noteq> ([] :: nat list)" by simp
  have ns: "nextSplitter twoBlocks [0, 1] = (1, [0])" by code_simp
  have n: "getNumberOfStates twoBlocks 1 = 1 \<and> getNumberOfStates twoBlocks 0 = 2" by code_simp
  have c: "getBlocks (setSplitter 1 False twoBlocks) =
     [\<lparr> handle = 0, states = [0, 1], splitter = True, absorbing = False,
        representativeState = None \<rparr>,
      \<lparr> handle = 1, states = [2], splitter = False, absorbing = False,
        representativeState = None \<rparr>]"
    by code_simp
  from smallest_pending_splitter_is_taken[OF ne ns, of Strong "getBackwardTransitions lazyModel"]
  obtain k where
    "refinementLoop Strong (getBackwardTransitions lazyModel) (twoBlocks, [0, 1]) =
       (refinementIteration Strong (getBackwardTransitions lazyModel) ^^ k) (twoBlocks, [0, 1])"
    "snd ((refinementIteration Strong (getBackwardTransitions lazyModel) ^^ k)
            (twoBlocks, [0, 1])) = []"
    by blast
  then have e: "snd (refinementLoop Strong (getBackwardTransitions lazyModel)
                      (twoBlocks, [0, 1])) = []"
    by simp
  have r: "map states (getBlocks (fst (refinementLoop Strong (getBackwardTransitions lazyModel)
                                 (twoBlocks, [0, 1])))) = [[0], [1], [2]]"
    by code_simp
  show ?thesis
    by (intro conjI) (rule ns conjunct1[OF n] conjunct2[OF n] c e r)+
qed

section \<open>Splitting blocks\<close>

lemma map_enumerate_snd: "map (\<lambda>p. F (snd p)) (enumerate k xs) = map F xs"
  by (induction xs arbitrary: k) auto

lemma map_enumerate_fst: "map (\<lambda>p. F (fst p)) (enumerate k xs) = map F [k..<k + length xs]"
proof (induction xs arbitrary: k)
  case Nil
  then show ?case by simp
next
  case (Cons x xs)
  have "[k..<k + length (x # xs)] = k # [Suc k..<Suc k + length xs]"
    by (subst upt_rec) simp
  with Cons[of "Suc k"] show ?case by simp
qed

lemma newBlocks_handles: "map handle (newBlocks r a flag h groups) = [h..<h + length groups]"
  using map_enumerate_fst[of "\<lambda>i. i" h groups]
  by (simp add: newBlocks_def case_prod_beta comp_def)

lemma newBlocks_states: "map states (newBlocks r a flag h groups) = groups"
  using map_enumerate_snd[of "\<lambda>g. g" h groups]
  by (simp add: newBlocks_def case_prod_beta comp_def)

lemma newBlocks_absorbing: "b \<in> set (newBlocks r a flag h groups) \<Longrightarrow> absorbing b = a"
  by (auto simp: newBlocks_def)

lemma newBlocks_member:
  assumes "b \<in> set (newBlocks r a flag h groups)"
  shows "states b \<in> set groups" "h \<le> handle b" "handle b < h + length groups"
proof -
  have "states b \<in> set (map states (newBlocks r a flag h groups))" using assms by simp
  then show "states b \<in> set groups" by (simp only: newBlocks_states)
  have "handle b \<in> set (map handle (newBlocks r a flag h groups))" using assms by simp
  then have "handle b \<in> set [h..<h + length groups]" by (simp only: newBlocks_handles)
  then show "h \<le> handle b" "handle b < h + length groups" by auto
qed

lemma splitBlocks_nextHandle: "h \<le> snd (splitBlocks flag f bs h)"
proof (induction bs arbitrary: h)
  case Nil
  then show ?case by simp
next
  case (Cons b bs)
  show ?case
  proof (cases "1 < length (f b)")
    case True
    obtain bs' h' where rec: "splitBlocks flag f bs (h + length (f b)) = (bs', h')"
      by (cases "splitBlocks flag f bs (h + length (f b))")
    have "h + length (f b) \<le> h'" using Cons.IH[of "h + length (f b)"] rec by simp
    then show ?thesis unfolding splitBlocks_Cons_split[OF True rec] by simp
  next
    case False
    obtain bs' h' where rec: "splitBlocks flag f bs h = (bs', h')"
      by (cases "splitBlocks flag f bs h")
    have "h \<le> h'" using Cons.IH[of h] rec by simp
    then show ?thesis unfolding splitBlocks_Cons_keep[OF False rec] by simp
  qed
qed

text \<open>Every block after a split is a block that was kept, or a new block made of one group.\<close>

lemma splitBlocks_member:
  assumes "splitBlocks flag f bs h = (bs', h')" "b' \<in> set bs'"
  shows "(b' \<in> set bs \<and> \<not> 1 < length (f b')) \<or>
         (\<exists>b\<in>set bs. 1 < length (f b) \<and> states b' \<in> set (f b) \<and> absorbing b' = absorbing b \<and>
            h \<le> handle b' \<and> handle b' < h')"
  using assms
proof (induction bs arbitrary: h bs' h')
  case Nil
  then show ?case by simp
next
  case (Cons b bs)
  show ?case
  proof (cases "1 < length (f b)")
    case True
    obtain bs1 h1 where rec: "splitBlocks flag f bs (h + length (f b)) = (bs1, h1)"
      by (cases "splitBlocks flag f bs (h + length (f b))")
    have bs': "bs' = newBlocks (representativeState b) (absorbing b) flag h (f b) @ bs1" and h': "h' = h1"
      using Cons.prems(1) unfolding splitBlocks_Cons_split[OF True rec] by auto
    have le: "h + length (f b) \<le> h1" using splitBlocks_nextHandle[of "h + length (f b)" flag f bs] rec by simp
    from Cons.prems(2) bs' consider "b' \<in> set (newBlocks (representativeState b) (absorbing b) flag h (f b))" | "b' \<in> set bs1"
      by auto
    then show ?thesis
    proof cases
      case 1
      from newBlocks_member[OF 1] newBlocks_absorbing[OF 1] le h' True show ?thesis by auto
    next
      case 2
      from Cons.IH[OF rec 2] le h' show ?thesis by auto
    qed
  next
    case False
    obtain bs1 h1 where rec: "splitBlocks flag f bs h = (bs1, h1)"
      by (cases "splitBlocks flag f bs h")
    have bs': "bs' = b # bs1" and h': "h' = h1"
      using Cons.prems(1) unfolding splitBlocks_Cons_keep[OF False rec] by auto
    from Cons.prems(2) bs' consider "b' = b" | "b' \<in> set bs1" by auto
    then show ?thesis
    proof cases
      case 1
      then show ?thesis using False by simp
    next
      case 2
      from Cons.IH[OF rec 2] h' show ?thesis by auto
    qed
  qed
qed



lemma splitPartition_blocks:
  "splitBlocks flag f (getBlocks P) (nextHandle P) =
     (getBlocks (splitPartition flag f P), nextHandle (splitPartition flag f P))"
  by (cases "splitBlocks flag f (getBlocks P) (nextHandle P)") (simp add: splitPartition_def)

lemma splitPartition_member:
  assumes "b' \<in> set (getBlocks (splitPartition flag f P))"
  shows "(b' \<in> set (getBlocks P) \<and> \<not> 1 < length (f b')) \<or>
         (\<exists>b\<in>set (getBlocks P). 1 < length (f b) \<and> states b' \<in> set (f b) \<and>
            absorbing b' = absorbing b)"
  using splitBlocks_member[OF splitPartition_blocks[of flag f P] assms] by blast


lemma uniformOn_subset: "uniformOn k B \<Longrightarrow> set B' \<subseteq> set B \<Longrightarrow> uniformOn k B'"
  unfolding uniformOn_def by blast


lemma groupBySignature_group:
  "g \<in> set (groupBySignature sig ss) \<Longrightarrow> uniformOn sig g \<and> set g \<subseteq> set ss"
proof (induction sig ss rule: groupBySignature.induct)
  case (1 sig)
  then show ?case by simp
next
  case (2 sig s ss)
  from "2.prems" consider "g = s # filter (\<lambda>t. sig t = sig s) ss"
    | "g \<in> set (groupBySignature sig (filter (\<lambda>t. sig t \<noteq> sig s) ss))"
    by auto
  then show ?case
  proof cases
    case 1
    then show ?thesis unfolding uniformOn_def by auto
  next
    case 2
    from "2.IH"[OF 2] show ?thesis by auto
  qed
qed





lemma setSplitter_origin:
  assumes "b \<in> set (getBlocks (setSplitter h v P))"
  shows "\<exists>b0\<in>set (getBlocks P). handle b0 = handle b \<and> states b0 = states b \<and>
           absorbing b0 = absorbing b"
proof -
  from assms obtain c where c: "c \<in> set (getBlocks P)"
    and bc: "b = (if handle c = h then c\<lparr>splitter := v\<rparr> else c)"
    unfolding setSplitter_blocks set_map by (rule imageE)
  have "handle c = handle b" "states c = states b" "absorbing c = absorbing b"
    unfolding bc flag_update_fields by simp_all
  with c show ?thesis by blast
qed

section \<open>Well-formed initial partitions\<close>







section \<open>Stages of the computation\<close>


lemma compute_stages:
  assumes "computeBisimulationDecomposition d = Inr d'"
  shows "\<exists>d1. initializeInitialPartition d = Inr d1 \<and>
           partition_m d' = fst (refinementLoop (otype (options d)) (backwardTransitions d)
                                   (initialRefinementState (partition_m d1))) \<and>
           blocks d' = map (\<lambda>b. sort (states b)) (getBlocks (partition_m d')) \<and>
           model d' = model d \<and> options d1 = options d"
proof -
  from assms obtain d1 where i: "initializeInitialPartition d = Inr d1"
    by (auto simp: computeBisimulationDecomposition_def split: sum.splits)
  note f = initializeInitialPartition_fields[OF i]
  let ?d3 = "extractDecompositionBlocks (performPartitionRefinement d1)"
  have d': "d' = (if buildQuotient (options ?d3) then buildQuotient_m ?d3 else ?d3)"
    using assms i by (simp add: computeBisimulationDecomposition_def Let_def)
  have p3: "partition_m ?d3 = fst (refinementLoop (otype (options d)) (backwardTransitions d)
                                   (initialRefinementState (partition_m d1)))"
    using f by (simp add: extractDecompositionBlocks_def performPartitionRefinement_def)
  have b3: "blocks ?d3 = map (\<lambda>b. sort (states b)) (getBlocks (partition_m ?d3))"
    by (simp add: extractDecompositionBlocks_def)
  have m3: "model ?d3 = model d"
    using f by (simp add: extractDecompositionBlocks_def performPartitionRefinement_def)
  have "partition_m d' = partition_m ?d3 \<and> blocks d' = blocks ?d3 \<and> model d' = model ?d3"
    unfolding d' by (simp add: buildQuotient_m_def Let_def)
  with p3 b3 m3 i f(2) show ?thesis by simp
qed

section \<open>State rewards\<close>

lemma insertBy_set: "set (insertBy lt x ys) = insert x (set ys)"
  by (induction ys) auto

lemma sortBy_Cons: "sortBy lt (x # xs) = insertBy lt x (sortBy lt xs)"
  by (simp add: sortBy_def)

lemma sortBy_set: "set (sortBy lt xs) = set xs"
proof (induction xs)
  case Nil
  then show ?case by (simp add: sortBy_def)
next
  case (Cons x xs)
  then show ?case by (simp add: sortBy_Cons insertBy_set)
qed

lemma insertBy_sorted:
  fixes key :: "'a \<Rightarrow> 'k::linorder"
  assumes "sorted (map key ys)"
  shows "sorted (map key (insertBy (\<lambda>a b. key a < key b) x ys))"
  using assms
proof (induction ys)
  case Nil
  then show ?case by simp
next
  case (Cons y ys)
  show ?case
  proof (cases "key x < key y")
    case True
    then have "\<forall>z\<in>set (y # ys). key x \<le> key z" using Cons.prems by auto
    with True Cons.prems show ?thesis by simp
  next
    case False
    then have "key y \<le> key x" by simp
    moreover have "sorted (map key (insertBy (\<lambda>a b. key a < key b) x ys))"
      using Cons by simp
    moreover have "\<forall>z\<in>set ys. key y \<le> key z" using Cons.prems by simp
    ultimately show ?thesis using False by (simp add: insertBy_set)
  qed
qed

lemma sortBy_sorted:
  fixes key :: "'a \<Rightarrow> 'k::linorder"
  shows "sorted (map key (sortBy (\<lambda>a b. key a < key b) xs))"
proof (induction xs)
  case Nil
  then show ?case by (simp add: sortBy_def)
next
  case (Cons x xs)
  show ?case unfolding sortBy_Cons by (rule insertBy_sorted[OF Cons])
qed

lemma ranges_Cons: "\<exists>r rs. ranges lt (y # ys) = (y # r) # rs"
proof (induction ys arbitrary: y)
  case Nil
  then show ?case by simp
next
  case (Cons z zs)
  from Cons[of z] obtain r rs where r: "ranges lt (z # zs) = (z # r) # rs" by blast
  show ?case
  proof (cases "lt y z")
    case True
    then show ?thesis by simp
  next
    case False
    then show ?thesis using r by simp
  qed
qed

lemma ranges_step_cut: "lt x y \<Longrightarrow> ranges lt (x # y # ys) = [x] # ranges lt (y # ys)"
  by simp

lemma ranges_step_join:
  "\<not> lt x y \<Longrightarrow> ranges lt (y # ys) = r # rs \<Longrightarrow> ranges lt (x # y # ys) = (x # r) # rs"
  by simp

lemma ranges_concat: "concat (ranges lt xs) = xs"
proof (induction xs rule: induct_list012)
  case 1
  then show ?case by simp
next
  case (2 x)
  then show ?case by simp
next
  case (3 x y ys)
  from ranges_Cons[of lt y ys] obtain r rs where r: "ranges lt (y # ys) = (y # r) # rs" by blast
  show ?case
  proof (cases "lt x y")
    case True
    show ?thesis unfolding ranges_step_cut[of lt x y ys, OF True] using "3.IH"(2) by simp
  next
    case False
    have "concat ((y # r) # rs) = y # ys" using "3.IH"(2) unfolding r .
    then show ?thesis unfolding ranges_step_join[of lt x y ys, OF False r] by simp
  qed
qed

lemma ranges_uniform:
  fixes key :: "'a \<Rightarrow> 'k::linorder"
  assumes "sorted (map key xs)" "g \<in> set (ranges (\<lambda>a b. key a < key b) xs)"
  shows "\<forall>s\<in>set g. \<forall>t\<in>set g. key s = key t"
  using assms
proof (induction xs arbitrary: g rule: induct_list012)
  case 1
  then show ?case by simp
next
  case (2 x)
  then show ?case by simp
next
  case (3 x y ys)
  let ?lt = "\<lambda>a b. key a < key b"
  from ranges_Cons[of ?lt y ys] obtain r1 rs where r1: "ranges ?lt (y # ys) = (y # r1) # rs" by blast
  have sorted': "sorted (map key (y # ys))" and le: "key x \<le> key y"
    using "3.prems"(1) by (simp_all del: ranges.simps)
  show ?case
  proof (cases "key x < key y")
    case True
    have "g \<in> set ([x] # ranges ?lt (y # ys))"
      using "3.prems"(2) unfolding ranges_step_cut[of ?lt x y ys, OF True] .
    then have "g = [x] \<or> g \<in> set (ranges ?lt (y # ys))"
      by (simp only: list.set insert_iff)
    then consider "g = [x]" | "g \<in> set (ranges ?lt (y # ys))" by blast
    then show ?thesis
    proof cases
      case 1
      then show ?thesis by simp
    next
      case 2
      from "3.IH"(2)[OF sorted' 2] show ?thesis .
    qed
  next
    case False
    from le False have eq: "key x = key y" by simp
    have "g \<in> set ((x # y # r1) # rs)"
      using "3.prems"(2) unfolding ranges_step_join[of ?lt x y ys, OF False r1] .
    then have "g = x # y # r1 \<or> g \<in> set rs"
      by (simp only: list.set insert_iff)
    then consider "g = x # y # r1" | "g \<in> set rs" by blast
    then show ?thesis
    proof cases
      case 1
      have "y # r1 \<in> set (ranges ?lt (y # ys))" unfolding r1 by simp
      from "3.IH"(2)[OF sorted' this]
      have u: "\<forall>s\<in>set (y # r1). \<forall>t\<in>set (y # r1). key s = key t" .
      have ky: "key s = key y" if "s \<in> set (y # r1)" for s
      proof -
        have "y \<in> set (y # r1)" by (simp only: list.set insert_iff simp_thms)
        with u that show ?thesis by blast
      qed
      have k: "\<forall>s\<in>set (x # y # r1). key s = key y"
      proof
        fix s assume "s \<in> set (x # y # r1)"
        then have "s = x \<or> s \<in> set (y # r1)" by (simp only: list.set insert_iff)
        then show "key s = key y" using eq ky by blast
      qed
      show ?thesis unfolding 1
      proof (intro ballI)
        fix s t assume "s \<in> set (x # y # r1)" "t \<in> set (x # y # r1)"
        with k have "key s = key y" "key t = key y" by blast+
        then show "key s = key t" by simp
      qed
    next
      case 2
      then have "g \<in> set (ranges ?lt (y # ys))" unfolding r1 by simp
      from "3.IH"(2)[OF sorted' this] show ?thesis .
    qed
  qed
qed

lemma ranges_single:
  fixes key :: "'a \<Rightarrow> 'k::linorder"
  assumes "sorted (map key xs)" "\<not> 1 < length (ranges (\<lambda>a b. key a < key b) xs)"
  shows "\<forall>s\<in>set xs. \<forall>t\<in>set xs. key s = key t"
proof (cases "ranges (\<lambda>a b. key a < key b) xs")
  case Nil
  then have "concat (ranges (\<lambda>a b. key a < key b) xs) = []" by simp
  then have "xs = []" unfolding ranges_concat .
  then show ?thesis by simp
next
  case (Cons g gs)
  with assms(2) have gs: "gs = []" by simp
  have "concat (ranges (\<lambda>a b. key a < key b) xs) = g" unfolding Cons gs by simp
  then have g: "g = xs" unfolding ranges_concat by simp
  have "g \<in> set (ranges (\<lambda>a b. key a < key b) xs)" unfolding Cons by simp
  from ranges_uniform[OF assms(1) this] show ?thesis unfolding g .
qed


lemma split_less_uniform:
  "blocksUniform (\<lambda>s. rv ! s) (split_less (\<lambda>a b. rv ! a < rv ! b) P)"
  unfolding blocksUniform_def
proof
  let ?lt = "\<lambda>a b. rv ! a < rv ! b"
  let ?f = "\<lambda>b::Block. ranges ?lt (sortBy ?lt (states b))"
  fix b' assume "b' \<in> set (getBlocks (split_less ?lt P))"
  then have "b' \<in> set (getBlocks (splitPartition False ?f P))" unfolding split_less_def .
  from splitPartition_member[OF this]
  show "uniformOn (\<lambda>s. rv ! s) (states b')"
  proof
    assume "b' \<in> set (getBlocks P) \<and> \<not> 1 < length (?f b')"
    then have n: "\<not> 1 < length (ranges ?lt (sortBy ?lt (states b')))" by simp
    have "\<forall>s\<in>set (sortBy ?lt (states b')). \<forall>t\<in>set (sortBy ?lt (states b')). rv ! s = rv ! t"
      by (rule ranges_single[of "\<lambda>s. rv ! s", OF sortBy_sorted n])
    then show ?thesis unfolding uniformOn_def sortBy_set .
  next
    assume "\<exists>b\<in>set (getBlocks P). 1 < length (?f b) \<and> states b' \<in> set (?f b) \<and>
        absorbing b' = absorbing b"
    then obtain b :: Block where g: "states b' \<in> set (ranges ?lt (sortBy ?lt (states b)))"
      by (elim bexE conjE)
    show ?thesis unfolding uniformOn_def
      by (rule ranges_uniform[of "\<lambda>s. rv ! s", OF sortBy_sorted g])
  qed
qed

lemma splitPartition_refines:
  assumes "\<And>b g. g \<in> set (f b) \<Longrightarrow> set g \<subseteq> set (states b)" "blocksUniform k P"
  shows "blocksUniform k (splitPartition flag f P)"
  unfolding blocksUniform_def
proof
  fix b' assume "b' \<in> set (getBlocks (splitPartition flag f P))"
  from splitPartition_member[OF this] show "uniformOn k (states b')"
  proof
    assume "b' \<in> set (getBlocks P) \<and> \<not> 1 < length (f b')"
    then show ?thesis using assms(2) unfolding blocksUniform_def by blast
  next
    assume "\<exists>b\<in>set (getBlocks P). 1 < length (f b) \<and> states b' \<in> set (f b) \<and>
        absorbing b' = absorbing b"
    then obtain b where b: "b \<in> set (getBlocks P)" and g: "states b' \<in> set (f b)" by blast
    from b assms(2) have "uniformOn k (states b)" unfolding blocksUniform_def by blast
    then show ?thesis using assms(1)[OF g] by (rule uniformOn_subset)
  qed
qed

lemma refine_fst:
  "fst (refinePartitionBasedOnSplitter t bt h sv Q) =
     splitPartition True
       (subBlocks t bt (case getBlock Q h of Some b \<Rightarrow> states b | None \<Rightarrow> [])) Q"
  by (simp add: refinePartitionBasedOnSplitter_def Let_def)

lemma subBlocks_group: "g \<in> set (subBlocks t bt S b) \<Longrightarrow> set g \<subseteq> set (states b)"
  using groupBySignature_group[of g "signature t bt S (states b)" "states b"]
  by (auto simp: subBlocks_def split: if_splits)

lemma blocksUniform_setSplitter:
  assumes "blocksUniform k P"
  shows "blocksUniform k (setSplitter h v P)"
  unfolding blocksUniform_def
proof
  fix b assume "b \<in> set (getBlocks (setSplitter h v P))"
  from setSplitter_origin[OF this] obtain b0 where "b0 \<in> set (getBlocks P)" "states b0 = states b"
    by blast
  with assms show "uniformOn k (states b)" unfolding blocksUniform_def by metis
qed

lemma refinementIteration_uniform:
  assumes "blocksUniform k (fst st)"
  shows "blocksUniform k (fst (refinementIteration t bt st))"
proof -
  obtain P sv where st: "st = (P, sv)" by (cases st)
  obtain h sv1 where ns: "nextSplitter P sv = (h, sv1)" by (cases "nextSplitter P sv")
  have e: "fst (refinementIteration t bt st) =
      fst (refinePartitionBasedOnSplitter t bt h sv1 (setSplitter h False P))"
    unfolding st by (simp add: refinementIteration_def ns)
  have u: "blocksUniform k (setSplitter h False P)"
    using assms unfolding st by (simp add: blocksUniform_setSplitter)
  show ?thesis
    unfolding e refine_fst
  proof (rule splitPartition_refines[OF _ u])
    fix b :: Block and g
    assume "g \<in> set (subBlocks t bt
        (case getBlock (setSplitter h False P) h of None \<Rightarrow> [] | Some b \<Rightarrow> states b) b)"
    then show "set g \<subseteq> set (states b)" by (rule subBlocks_group)
  qed
qed

lemma refinementReaches_uniform:
  assumes "refinementReaches t bt st0 st" "blocksUniform k (fst st0)"
  shows "blocksUniform k (fst st)"
  using assms
proof (induction rule: refinementReaches.induct)
  case start
  then show ?case .
next
  case (step st)
  show ?case by (rule refinementIteration_uniform[OF step.IH[OF step.prems]])
qed

lemma refinementLoop_reaches:
  "refinementReaches t bt st0 st \<Longrightarrow> refinementReaches t bt st0 (refinementLoop t bt st)"
proof (induction t bt st rule: refinementLoop.induct)
  case (1 t bt st)
  show ?case
  proof (cases "snd st = []")
    case True
    show ?thesis unfolding refinementLoop_done[OF True] by (rule "1.prems")
  next
    case False
    have "refinementReaches t bt st0 (refinementIteration t bt st)"
      by (rule refinementReaches.step[OF "1.prems" False])
    from "1.IH"[OF False this] show ?thesis unfolding refinementLoop_step[OF False] .
  qed
qed

lemma initialRefinementState_uniform:
  assumes "blocksUniform k P"
  shows "blocksUniform k (fst (initialRefinementState P))"
proof -
  have "map states (getBlocks (fst (initialRefinementState P))) = map states (getBlocks P)"
    by (simp add: initialRefinementState_def Let_def comp_def)
  then have "set (map states (getBlocks (fst (initialRefinementState P)))) = set (map states (getBlocks P))"
    by simp
  then have "states ` set (getBlocks (fst (initialRefinementState P))) = states ` set (getBlocks P)"
    by (simp only: set_map)
  then have i: "states ` set (getBlocks (fst (initialRefinementState P))) \<subseteq> states ` set (getBlocks P)"
    by simp
  show ?thesis unfolding blocksUniform_def
  proof
    fix b assume "b \<in> set (getBlocks (fst (initialRefinementState P)))"
    then have "states b \<in> states ` set (getBlocks (fst (initialRefinementState P)))" by (rule imageI)
    from this i have "states b \<in> states ` set (getBlocks P)" by (rule rev_subsetD)
    then obtain b0 where "b0 \<in> set (getBlocks P)" "states b = states b0" by (rule imageE)
    with assms show "uniformOn k (states b)" unfolding blocksUniform_def by simp
  qed
qed

lemma init_unique_reward_model:
  assumes "BisimulationDecomposition_init m bt opts = Inr d" "keepRewards opts" "hasRewardModel m"
  shows "\<exists>r. getUniqueRewardModel m = Some r"
proof -
  from assms have "hasUniqueRewardModel m"
    by (auto simp: BisimulationDecomposition_init_def split: if_splits)
  then have "length (rewardModels m) = 1" by (simp add: hasUniqueRewardModel_def)
  then obtain p where "rewardModels m = [p]" by (cases "rewardModels m") auto
  then show ?thesis by (cases p) (simp add: getUniqueRewardModel_def)
qed

lemma initial_partition_reward_split:
  assumes "initializeInitialPartition d = Inr d1" "keepRewards (options d)" "hasRewardModel (model d)"
  shows "\<exists>P. splitInitialPartitionBasedOnStateRewards (d\<lparr>partition_m := P\<rparr>) = Inr d1"
proof (cases "measureDrivenInitialPartition (options d)")
  case True
  with assms(1) have i: "initializeMeasureDrivenPartition d = Inr d1"
    by (simp add: initializeInitialPartition_def split: if_splits)
  then obtain phi psi where pp: "phiStates (options d) = Some phi" "psiStates (options d) = Some psi"
    by (auto simp: initializeMeasureDrivenPartition_def split: option.splits)
  show ?thesis
    using i assms(2,3) unfolding initializeMeasureDrivenPartition_def pp
    by (simp add: Let_def) blast
next
  case False
  with assms(1) have i: "initializeLabelBasedPartition d = Inr d1"
    by (simp add: initializeInitialPartition_def)
  then obtain aps where aps: "respectedAtomicPropositions (options d) = Some aps"
    by (auto simp: initializeLabelBasedPartition_def split: option.splits)
  show ?thesis
    using i assms(2,3) unfolding initializeLabelBasedPartition_def aps
    by (simp add: Let_def) blast
qed

lemma initial_partition_uniform:
  assumes "initializeInitialPartition d = Inr d1" "keepRewards (options d)" "hasRewardModel (model d)"
    "getUniqueRewardModel (model d) = Some r"
  shows "blocksUniform (\<lambda>s. stateRewardVector r ! s) (partition_m d1)"
proof -
  from initial_partition_reward_split[OF assms(1,2,3)] obtain P where
    "splitInitialPartitionBasedOnStateRewards (d\<lparr>partition_m := P\<rparr>) = Inr d1" by blast
  then have "partition_m d1 =
      split_less (\<lambda>a b. stateRewardVector r ! a < stateRewardVector r ! b) P"
    using assms(4) by (auto simp: splitInitialPartitionBasedOnStateRewards_def)
  then show ?thesis by (simp only: split_less_uniform)
qed

text \<open>
  Claim C9. If rewards are kept and the model has a reward model, then no block contains two
  states with different state rewards: not in the initial partition, not in any partition the
  refinement loop reaches from it, and not in the blocks of the final decomposition.
\<close>

theorem blocks_have_one_state_reward:
  assumes "BisimulationDecomposition_init m bt opts = Inr d"
    and "keepRewards opts" and "hasRewardModel m"
  shows "\<exists>r. getUniqueRewardModel m = Some r \<and>
           (\<forall>d1. initializeInitialPartition d = Inr d1 \<longrightarrow>
              (\<forall>st. refinementReaches (otype opts) bt (initialRefinementState (partition_m d1)) st \<longrightarrow>
                 (\<forall>b\<in>set (getBlocks (fst st)). \<forall>s\<in>set (states b). \<forall>t\<in>set (states b).
                    stateRewardVector r ! s = stateRewardVector r ! t))) \<and>
           (\<forall>d'. computeBisimulationDecomposition d = Inr d' \<longrightarrow>
              (\<forall>B\<in>set (blocks d'). \<forall>s\<in>set B. \<forall>t\<in>set B.
                 stateRewardVector r ! s = stateRewardVector r ! t))"
proof -
  from init_unique_reward_model[OF assms] obtain r where r: "getUniqueRewardModel m = Some r" ..
  let ?k = "\<lambda>s. stateRewardVector r ! s"
  have md: "model d = m" by (rule init_Inr_options(1)[OF assms(1)])
  have bd: "backwardTransitions d = bt" by (rule init_Inr_options(4)[OF assms(1)])
  have od: "options d = (if respectedAtomicPropositions opts = None
                  then opts\<lparr>respectedAtomicPropositions := Some (getLabels m)\<rparr> else opts)"
    by (rule init_Inr_options(3)[OF assms(1)])
  have kd: "keepRewards (options d)" and td: "otype (options d) = otype opts"
    unfolding od using assms(2) by simp_all
  have hd: "hasRewardModel (model d)" and rd: "getUniqueRewardModel (model d) = Some r"
    unfolding md using assms(3) r by simp_all
  have reach: "blocksUniform ?k (fst st)"
    if i: "initializeInitialPartition d = Inr d1"
      and rr: "refinementReaches (otype opts) bt (initialRefinementState (partition_m d1)) st"
    for d1 st
  proof -
    have "blocksUniform ?k (partition_m d1)"
      by (rule initial_partition_uniform[OF i kd hd rd])
    then have "blocksUniform ?k (fst (initialRefinementState (partition_m d1)))"
      by (rule initialRefinementState_uniform)
    with rr show ?thesis by (rule refinementReaches_uniform)
  qed
  have 1: "\<forall>d1. initializeInitialPartition d = Inr d1 \<longrightarrow>
              (\<forall>st. refinementReaches (otype opts) bt (initialRefinementState (partition_m d1)) st \<longrightarrow>
                 (\<forall>b\<in>set (getBlocks (fst st)). \<forall>s\<in>set (states b). \<forall>t\<in>set (states b).
                    stateRewardVector r ! s = stateRewardVector r ! t))"
  proof (intro allI impI)
    fix d1 st
    assume "initializeInitialPartition d = Inr d1"
      "refinementReaches (otype opts) bt (initialRefinementState (partition_m d1)) st"
    from reach[OF this] show "\<forall>b\<in>set (getBlocks (fst st)). \<forall>s\<in>set (states b). \<forall>t\<in>set (states b).
                    stateRewardVector r ! s = stateRewardVector r ! t"
      unfolding blocksUniform_def uniformOn_def .
  qed
  have 2: "\<forall>d'. computeBisimulationDecomposition d = Inr d' \<longrightarrow>
              (\<forall>B\<in>set (blocks d'). \<forall>s\<in>set B. \<forall>t\<in>set B.
                 stateRewardVector r ! s = stateRewardVector r ! t)"
  proof (intro allI impI ballI)
    fix d' B s t
    assume c: "computeBisimulationDecomposition d = Inr d'" and B: "B \<in> set (blocks d')"
      and s: "s \<in> set B" and t: "t \<in> set B"
    from compute_stages[OF c] obtain d1 where i: "initializeInitialPartition d = Inr d1"
      and p: "partition_m d' = fst (refinementLoop (otype opts) bt
                                   (initialRefinementState (partition_m d1)))"
      and bl: "blocks d' = map (\<lambda>b. sort (states b)) (getBlocks (partition_m d'))"
      unfolding td md bd by blast
    have "refinementReaches (otype opts) bt (initialRefinementState (partition_m d1))
        (refinementLoop (otype opts) bt (initialRefinementState (partition_m d1)))"
      by (rule refinementLoop_reaches[OF refinementReaches.start])
    from reach[OF i this] have u: "blocksUniform ?k (partition_m d')" unfolding p .
    from B obtain b where b: "b \<in> set (getBlocks (partition_m d'))" "B = sort (states b)"
      unfolding bl by auto
    from u b(1) have "uniformOn ?k (states b)" unfolding blocksUniform_def by blast
    moreover have "s \<in> set (states b)" "t \<in> set (states b)" using s t unfolding b(2) by simp_all
    ultimately show "stateRewardVector r ! s = stateRewardVector r ! t"
      unfolding uniformOn_def by blast
  qed
  show ?thesis
    apply (rule exI[of _ r])
    apply (intro conjI)
      apply (rule r)
     apply (rule 1)
    apply (rule 2)
    done
qed

theorem blocks_have_one_state_reward_witness:
  "BisimulationDecomposition_init rewardForkModel (getBackwardTransitions rewardForkModel)
     keepingRewards = Inr rewardForkDecomposition \<and>
   map_sum id (\<lambda>d. map states (getBlocks (partition_m d)))
     (initializeInitialPartition rewardForkDecomposition) = Inr [[2], [3], [1, 0]] \<and>
   map_sum id blocks (computeBisimulationDecomposition rewardForkDecomposition) =
     Inr [[2], [3], [0, 1]] \<and>
   [1, 1, 0, 0 :: rat] ! 0 = [1, 1, 0, 0] ! 1"
proof -
  have i: "BisimulationDecomposition_init rewardForkModel (getBackwardTransitions rewardForkModel)
      keepingRewards = Inr rewardForkDecomposition"
    by code_simp
  have k: "keepRewards keepingRewards" by (simp add: keepingRewards_def)
  have h: "hasRewardModel rewardForkModel" by (simp add: hasRewardModel_def rewardForkModel_def)
  have u: "getUniqueRewardModel rewardForkModel =
      Some \<lparr> stateRewardVector = [1, 1, 0, 0], hasTransitionRewards = False \<rparr>"
    by (simp add: getUniqueRewardModel_def rewardForkModel_def)
  have p: "map_sum id (\<lambda>d. map states (getBlocks (partition_m d)))
     (initializeInitialPartition rewardForkDecomposition) = Inr [[2], [3], [1, 0]]"
    by code_simp
  have c: "map_sum id blocks (computeBisimulationDecomposition rewardForkDecomposition) =
     Inr [[2], [3], [0, 1]]"
    by code_simp
  obtain d' where d': "computeBisimulationDecomposition rewardForkDecomposition = Inr d'"
    using c by (cases "computeBisimulationDecomposition rewardForkDecomposition") simp_all
  have b: "blocks d' = [[2], [3], [0, 1]]"
    using c unfolding d' by simp
  from blocks_have_one_state_reward[OF i k h] obtain r where
    r: "getUniqueRewardModel rewardForkModel = Some r"
    and f: "\<forall>d'. computeBisimulationDecomposition rewardForkDecomposition = Inr d' \<longrightarrow>
              (\<forall>B\<in>set (blocks d'). \<forall>s\<in>set B. \<forall>t\<in>set B.
                 stateRewardVector r ! s = stateRewardVector r ! t)"
    by blast
  have rv: "stateRewardVector r = [1, 1, 0, 0]" using r unfolding u by auto
  have B: "[0, 1] \<in> set (blocks d')" unfolding b by simp
  have s0: "(0::nat) \<in> set [0, 1]" and s1: "(1::nat) \<in> set [0, 1]" by simp_all
  have e: "[1, 1, 0, 0 :: rat] ! 0 = [1, 1, 0, 0] ! 1"
    using f[rule_format, OF d' B s0 s1] unfolding rv .
  show ?thesis
    by (intro conjI) (rule i p c e)+
qed

section \<open>The measure-driven initial partition\<close>

lemma bv_begin_set: "\<not> bv_empty bv \<Longrightarrow> bv_get bv (bv_begin bv)"
proof (induction bv)
  case Nil
  then show ?case by (simp add: bv_empty_def)
next
  case (Cons b bs)
  then show ?case by (cases b) (auto simp: bv_empty_def bv_get_def)
qed

lemma bv_begin_least: "bv_get bv s \<Longrightarrow> bv_begin bv \<le> s"
proof (induction bv arbitrary: s)
  case Nil
  then show ?case by (simp add: bv_get_def)
next
  case (Cons b bs)
  then show ?case by (cases b; cases s) (auto simp: bv_get_def)
qed

lemma Partition_measureDriven_parts:
  "map (\<lambda>b. (states b, representativeState b)) (getBlocks (Partition_measureDriven n p0 p1 r)) =
     filter (\<lambda>(g, r). g \<noteq> [])
       [(filter (bv_get p0) [0..<n], None), (filter (bv_get p1) [0..<n], r),
        (filter (\<lambda>s. \<not> bv_get p0 s \<and> \<not> bv_get p1 s) [0..<n], None)]"
proof -
  have e: "map (\<lambda>b. (states b, representativeState b))
        (map (\<lambda>(i, (g, r, a)). \<lparr> handle = i, states = g, splitter = False, absorbing = a,
                                   representativeState = r \<rparr>)
           (enumerate 0 parts)) = map (\<lambda>(g, r, a). (g, r)) parts"
    for parts :: "(state_type list \<times> state_type option \<times> bool) list"
    using map_enumerate_snd[of "\<lambda>(g, r, a). (g, r)" 0 parts] by (simp add: case_prod_beta comp_def)
  show ?thesis
    unfolding Partition_measureDriven_def Let_def Partition.simps e by simp
qed

text \<open>
  Claim C5, as it holds. With the measure-driven initial partition enabled and phi and psi
  states present, the initial partition is the three-way partition into the states with
  probability 0, a second set, and the remaining states, empty parts left out; the second set is
  the psi states if bounded properties or rewards are preserved and the states with probability
  1 otherwise. Its block carries the representative, which is the first psi state whenever there
  is a psi state. If rewards are kept and the model has a reward model, the split by state
  rewards follows.
\<close>

theorem measure_driven_initial_partition:
  assumes "measureDrivenInitialPartition (options d)"
    and "phiStates (options d) = Some phi" and "psiStates (options d) = Some psi"
    and "measureDrivenSeeds d phi psi = (first, second)"
    and "representative = (if bv_empty psi then None else Some (bv_begin psi))"
  shows "\<exists>P. map (\<lambda>b. (states b, representativeState b)) (getBlocks P) =
              filter (\<lambda>(g, r). g \<noteq> [])
                [(filter (bv_get first) [0..<numberOfStates (model d)], None),
                 (filter (bv_get second) [0..<numberOfStates (model d)], representative),
                 (filter (\<lambda>s. \<not> bv_get first s \<and> \<not> bv_get second s)
                    [0..<numberOfStates (model d)], None)] \<and>
             (\<forall>s. representative = Some s \<longrightarrow> bv_get psi s \<and> (\<forall>s'. bv_get psi s' \<longrightarrow> s \<le> s')) \<and>
             initializeInitialPartition d =
               (if keepRewards (options d) \<and> hasRewardModel (model d)
                then splitInitialPartitionBasedOnStateRewards (d\<lparr>partition_m := P\<rparr>)
                else Inr (d\<lparr>partition_m := P\<rparr>)) \<and>
             (\<forall>rm. getUniqueRewardModel (model d) = Some rm \<longrightarrow>
                splitInitialPartitionBasedOnStateRewards (d\<lparr>partition_m := P\<rparr>) =
                  Inr (d\<lparr>partition_m :=
                    split_less (\<lambda>a b. stateRewardVector rm ! a < stateRewardVector rm ! b) P\<rparr>))"
proof -
  let ?P = "Partition_measureDriven (numberOfStates (model d)) first second representative"
  have fs: "first = fst (performProb01 (model d) phi psi)"
    "second = (if bounded (options d) \<or> keepRewards (options d) then psi
               else snd (performProb01 (model d) phi psi))"
    using assms(4) by (auto simp: measureDrivenSeeds_def)
  have 1: "map (\<lambda>b. (states b, representativeState b)) (getBlocks ?P) =
              filter (\<lambda>(g, r). g \<noteq> [])
                [(filter (bv_get first) [0..<numberOfStates (model d)], None),
                 (filter (bv_get second) [0..<numberOfStates (model d)], representative),
                 (filter (\<lambda>s. \<not> bv_get first s \<and> \<not> bv_get second s)
                    [0..<numberOfStates (model d)], None)]"
    by (rule Partition_measureDriven_parts)
  have 2: "\<forall>s. representative = Some s \<longrightarrow> bv_get psi s \<and> (\<forall>s'. bv_get psi s' \<longrightarrow> s \<le> s')"
    using assms(5) bv_begin_set[of psi] bv_begin_least[of psi] by (auto split: if_splits)
  have 3: "initializeInitialPartition d =
               (if keepRewards (options d) \<and> hasRewardModel (model d)
                then splitInitialPartitionBasedOnStateRewards (d\<lparr>partition_m := ?P\<rparr>)
                else Inr (d\<lparr>partition_m := ?P\<rparr>))"
    using assms(1,2,3,5) fs
    by (simp add: initializeInitialPartition_def initializeMeasureDrivenPartition_def
        getStatesWithProbability01_def Let_def)
  have 4: "\<forall>rm. getUniqueRewardModel (model d) = Some rm \<longrightarrow>
                splitInitialPartitionBasedOnStateRewards (d\<lparr>partition_m := ?P\<rparr>) =
                  Inr (d\<lparr>partition_m :=
                    split_less (\<lambda>a b. stateRewardVector rm ! a < stateRewardVector rm ! b) ?P\<rparr>)"
    by (simp add: splitInitialPartitionBasedOnStateRewards_def)
  show ?thesis
    apply (rule exI[of _ ?P])
    apply (intro conjI)
       apply (rule 1)
      apply (rule 2)
     apply (rule 3)
    apply (rule 4)
    done
qed

theorem measure_driven_initial_partition_witness:
  "measureDrivenSeeds chainMeasureDriven [True, True] [False, True] = ([False, False], [True, True]) \<and>
   map_sum id (\<lambda>d. map (\<lambda>b. (states b, representativeState b)) (getBlocks (partition_m d)))
     (initializeInitialPartition chainMeasureDriven) = Inr [([0, 1], Some 1)]"
proof -
  have m: "measureDrivenInitialPartition (options chainMeasureDriven)"
    and phi: "phiStates (options chainMeasureDriven) = Some [True, True]"
    and psi: "psiStates (options chainMeasureDriven) = Some [False, True]"
    and k: "\<not> (keepRewards (options chainMeasureDriven) \<and> hasRewardModel (model chainMeasureDriven))"
    by (simp_all add: chainMeasureDriven_def)
  have seeds: "measureDrivenSeeds chainMeasureDriven [True, True] [False, True] =
      ([False, False], [True, True])"
    by code_simp
  have rep: "Some 1 = (if bv_empty [False, True] then None else Some (bv_begin [False, True]))"
    by code_simp
  have parts: "filter (\<lambda>(g, r). g \<noteq> [])
      [(filter (bv_get [False, False]) [0..<numberOfStates (model chainMeasureDriven)], None),
       (filter (bv_get [True, True]) [0..<numberOfStates (model chainMeasureDriven)], Some (1::nat)),
       (filter (\<lambda>s. \<not> bv_get [False, False] s \<and> \<not> bv_get [True, True] s)
          [0..<numberOfStates (model chainMeasureDriven)], None)] = [([0, 1], Some 1)]"
    by code_simp
  from measure_driven_initial_partition[OF m phi psi seeds rep] obtain P where
    P0: "map (\<lambda>b. (states b, representativeState b)) (getBlocks P) =
      filter (\<lambda>(g, r). g \<noteq> [])
      [(filter (bv_get [False, False]) [0..<numberOfStates (model chainMeasureDriven)], None),
       (filter (bv_get [True, True]) [0..<numberOfStates (model chainMeasureDriven)], Some (1::nat)),
       (filter (\<lambda>s. \<not> bv_get [False, False] s \<and> \<not> bv_get [True, True] s)
          [0..<numberOfStates (model chainMeasureDriven)], None)]"
    and i0: "initializeInitialPartition chainMeasureDriven =
      (if keepRewards (options chainMeasureDriven) \<and> hasRewardModel (model chainMeasureDriven)
       then splitInitialPartitionBasedOnStateRewards (chainMeasureDriven\<lparr>partition_m := P\<rparr>)
       else Inr (chainMeasureDriven\<lparr>partition_m := P\<rparr>))"
    by blast
  have P: "map (\<lambda>b. (states b, representativeState b)) (getBlocks P) = [([0, 1], Some 1)]"
    using P0 unfolding parts .
  have i: "initializeInitialPartition chainMeasureDriven = Inr (chainMeasureDriven\<lparr>partition_m := P\<rparr>)"
    using i0 k by (simp only: if_False)
  have "map_sum id (\<lambda>d. map (\<lambda>b. (states b, representativeState b)) (getBlocks (partition_m d)))
     (initializeInitialPartition chainMeasureDriven) = Inr [([0, 1], Some 1)]"
    unfolding i using P by simp
  with seeds show ?thesis by simp
qed

text \<open>
  Claim C5, as stated, fails: the blocks are not seeded from the phi states and the psi states.
  For the chain and the formula "eventually a" the phi states are both states and the psi states
  are state 1 alone, but the initial partition is the single block of both states: the psi state
  shares a block with a state that is not a psi state.
\<close>

theorem measure_driven_blocks_are_not_phi_psi_rest:
  "phiStates (options chainMeasureDriven) = Some [True, True] \<and>
   psiStates (options chainMeasureDriven) = Some [False, True] \<and>
   setBits [True, True] = [0, 1] \<and> setBits [False, True] = [1] \<and>
   map_sum id (\<lambda>d. map states (getBlocks (partition_m d)))
     (initializeInitialPartition chainMeasureDriven) = Inr [[0, 1]]"
proof -
  have 1: "phiStates (options chainMeasureDriven) = Some [True, True]"
    and 2: "psiStates (options chainMeasureDriven) = Some [False, True]"
    by (simp_all add: chainMeasureDriven_def)
  have 3: "setBits [True, True] = [0, 1]" and 4: "setBits [False, True] = [1]"
    by code_simp+
  have 5: "map_sum id (\<lambda>d. map states (getBlocks (partition_m d)))
     (initializeInitialPartition chainMeasureDriven) = Inr [[0, 1]]"
    by code_simp
  show ?thesis by (intro conjI) (rule 1 2 3 4 5)+
qed

section \<open>Stability of the final partition\<close>

subsection \<open>The backward transitions of a model\<close>








subsection \<open>Blocks of distinct states of the model\<close>














subsection \<open>Partitions without an absorbing block\<close>












subsection \<open>The invariant of the refinement loop\<close>













end
